theory Spec2Isabelle
  imports Complex_Main "HOL-Library.Word" "HOL-Library.Log_Nat"
begin

section \<open>Binary floating point, as far as \<open>velocidad.c\<close> uses it\<close>

text \<open>
  The firmware computes with C \<open>float\<close> (IEEE 754 binary32) and \<open>double\<close> (binary64),
  each operation in the type of its operands after the usual conversions.
  A value is a finite real number, an infinity or a NaN. Every arithmetic operation
  computes the exact result and rounds it to the nearest value of the format, ties to
  the even significand; a result beyond the largest finite value becomes an infinity.
  The sign of a zero is not recorded: the only division of this program whose divisor
  can be zero divides by a number converted from an unsigned integer, which is \<open>+0\<close>.
  The finite values are not restricted to those of a format, so a statement about
  every value of type \<open>fp\<close> covers every \<open>float\<close> and every \<open>double\<close>.
\<close>

datatype fp = Fin real | PInf | NInf | NaN

record fp_format =
  precision :: nat
  emax :: int

definition binary32 :: fp_format where
  "binary32 = \<lparr>precision = 24, emax = 127\<rparr>"

definition binary64 :: fp_format where
  "binary64 = \<lparr>precision = 53, emax = 1023\<rparr>"

definition emin :: "fp_format \<Rightarrow> int" where
  "emin f = 1 - emax f"

text \<open>Rounding to the nearest integer, ties to even.\<close>

definition rne :: "real \<Rightarrow> int" where
  "rne x = (let n = \<lfloor>x\<rfloor>; d = x - of_int n in
     if d < 1 / 2 then n else if 1 / 2 < d then n + 1 else if even n then n else n + 1)"

text \<open>The binary exponent of a positive number: \<open>2 powi ilog2 x \<le> x < 2 powi (ilog2 x + 1)\<close>.\<close>

definition ilog2 :: "real \<Rightarrow> int" where
  "ilog2 x = (if 1 \<le> x then bitlen \<lfloor>x\<rfloor> - 1 else - bitlen (\<lceil>1 / x\<rceil> - 1))"

text \<open>The spacing of the format's values around \<open>x\<close> (subnormal below \<open>2 powi emin\<close>).\<close>

definition quantum :: "fp_format \<Rightarrow> real \<Rightarrow> real" where
  "quantum f x = 2 powi (max (emin f) (ilog2 \<bar>x\<bar>) - int (precision f) + 1)"

definition round_fin :: "fp_format \<Rightarrow> real \<Rightarrow> real" where
  "round_fin f x = sgn x * (of_int (rne (\<bar>x\<bar> / quantum f x)) * quantum f x)"

definition fround :: "fp_format \<Rightarrow> real \<Rightarrow> fp" where
  "fround f x = (let r = round_fin f x in
     if 2 powi (emax f + 1) \<le> \<bar>r\<bar> then (if 0 < x then PInf else NInf) else Fin r)"

fun fp_div :: "fp_format \<Rightarrow> fp \<Rightarrow> fp \<Rightarrow> fp" where
  "fp_div f NaN b = NaN"
| "fp_div f a NaN = NaN"
| "fp_div f (Fin x) (Fin y) =
     (if y = 0 then (if x = 0 then NaN else if 0 < x then PInf else NInf)
      else fround f (x / y))"
| "fp_div f (Fin x) b = Fin 0"
| "fp_div f PInf (Fin y) = (if 0 \<le> y then PInf else NInf)"
| "fp_div f NInf (Fin y) = (if 0 \<le> y then NInf else PInf)"
| "fp_div f a b = NaN"

fun fp_mul :: "fp_format \<Rightarrow> fp \<Rightarrow> fp \<Rightarrow> fp" where
  "fp_mul f NaN b = NaN"
| "fp_mul f a NaN = NaN"
| "fp_mul f (Fin x) (Fin y) = fround f (x * y)"
| "fp_mul f (Fin x) PInf = (if x = 0 then NaN else if 0 < x then PInf else NInf)"
| "fp_mul f (Fin x) NInf = (if x = 0 then NaN else if 0 < x then NInf else PInf)"
| "fp_mul f PInf (Fin y) = (if y = 0 then NaN else if 0 < y then PInf else NInf)"
| "fp_mul f NInf (Fin y) = (if y = 0 then NaN else if 0 < y then NInf else PInf)"
| "fp_mul f PInf PInf = PInf"
| "fp_mul f NInf NInf = PInf"
| "fp_mul f a b = NInf"

fun fp_sub :: "fp_format \<Rightarrow> fp \<Rightarrow> fp \<Rightarrow> fp" where
  "fp_sub f NaN b = NaN"
| "fp_sub f a NaN = NaN"
| "fp_sub f (Fin x) (Fin y) = fround f (x - y)"
| "fp_sub f PInf PInf = NaN"
| "fp_sub f NInf NInf = NaN"
| "fp_sub f PInf b = PInf"
| "fp_sub f NInf b = NInf"
| "fp_sub f a PInf = NInf"
| "fp_sub f a NInf = PInf"

text \<open>\<open>fabs\<close>.\<close>

fun fp_abs :: "fp \<Rightarrow> fp" where
  "fp_abs (Fin x) = Fin \<bar>x\<bar>"
| "fp_abs NInf = PInf"
| "fp_abs a = a"

text \<open>The comparison \<open>a < b\<close>; \<open>a > b\<close> is \<open>fp_less b a\<close>. A NaN compares false.\<close>

fun fp_less :: "fp \<Rightarrow> fp \<Rightarrow> bool" where
  "fp_less NaN b = False"
| "fp_less a NaN = False"
| "fp_less (Fin x) (Fin y) = (x < y)"
| "fp_less a NInf = False"
| "fp_less PInf b = False"
| "fp_less a b = True"

text \<open>
  Conversion of a value to the format \<open>f\<close>: a \<open>double\<close> stored into a \<open>float\<close>. The
  promotion of a \<open>float\<close> to \<open>double\<close> keeps the value and is not written.
\<close>

fun fp_cast :: "fp_format \<Rightarrow> fp \<Rightarrow> fp" where
  "fp_cast f (Fin x) = fround f x"
| "fp_cast f a = a"

definition fp_of_int :: "fp_format \<Rightarrow> int \<Rightarrow> fp" where
  "fp_of_int f n = fround f (of_int n)"

text \<open>A \<open>double\<close> literal.\<close>

definition dlit :: "real \<Rightarrow> fp" where
  "dlit x = fround binary64 x"

text \<open>
  Conversion to \<open>int\<close> (32 bits) discards the fractional part. Where the integral part
  does not fit, or the value is an infinity or a NaN, C leaves the behaviour undefined;
  \<open>u\<close> is the \<open>int\<close> that the platform delivers there.
\<close>

definition fp_trunc :: "real \<Rightarrow> int" where
  "fp_trunc x = (if 0 \<le> x then \<lfloor>x\<rfloor> else \<lceil>x\<rceil>)"

fun fp_to_int :: "int \<Rightarrow> fp \<Rightarrow> int" where
  "fp_to_int u (Fin x) =
     (let t = fp_trunc x in if - (2 ^ 31) \<le> t \<and> t < 2 ^ 31 then t else u)"
| "fp_to_int u a = u"


section \<open>The firmware\<close>

definition TARGET_SPEED :: int where
  "TARGET_SPEED = 20"

definition PULSES_PER_REV :: int where
  "PULSES_PER_REV = 3"

definition MOTOR_MAX_DUTY_CYCLE :: int where
  "MOTOR_MAX_DUTY_CYCLE = 255"

definition POT_CHANGE_THRESHOLD :: fp where
  "POT_CHANGE_THRESHOLD = dlit (1 / 2)"

definition POT_DEAD_ZONE :: fp where
  "POT_DEAD_ZONE = dlit (1 / 5)"

definition duty_cycle_step :: int where
  "duty_cycle_step = 20"

text \<open>
  The global variables, and \<open>last_button_state\<close>, the local variable of \<open>main\<close> that
  lives across the iterations of its loop.
\<close>

record state =
  pulse_count :: "32 word"
  last_pulse_time :: "32 word"
  speed :: fp
  cruise_control_active :: bool
  current_duty_cycle :: int
  last_pot_value :: fp
  last_button_state :: bool

definition init_state :: state where
  "init_state = \<lparr>pulse_count = 0, last_pulse_time = 0, speed = Fin 0,
     cruise_control_active = False, current_duty_cycle = 0, last_pot_value = Fin 0,
     last_button_state = True\<rparr>"

definition sensor_callback :: "state \<Rightarrow> state" where
  "sensor_callback s = s\<lparr>pulse_count := pulse_count s + 1\<rparr>"

text \<open>
  \<open>calculate_speed\<close>; \<open>now\<close> is what \<open>to_ms_since_boot (get_absolute_time ())\<close> returns.
  The subtraction of the two \<open>uint32_t\<close> wraps around.
\<close>

definition time_per_rev :: "32 word \<Rightarrow> 32 word \<Rightarrow> fp" where
  "time_per_rev current_time last_time =
     fp_cast binary32 (fp_div binary64 (fp_of_int binary64 (uint (current_time - last_time))) (dlit 1000))"

definition calculate_speed :: "32 word \<Rightarrow> state \<Rightarrow> state" where
  "calculate_speed now s =
     (if word_of_int PULSES_PER_REV \<le> pulse_count s then
        s\<lparr>speed := fp_cast binary32 (fp_div binary64 (dlit 60) (time_per_rev now (last_pulse_time s))),
          last_pulse_time := now,
          pulse_count := 0\<rparr>
      else s)"

text \<open>
  The interrupt of the sensor can run while \<open>calculate_speed\<close> does: the function is
  the test of line 32 followed, when the test holds, by lines 33 to 37, which end with
  the reset of the counter. \<open>calculate_speed_interrupted k\<close> is the call during which
  the callback runs \<open>k\<close> times after the test and before the reset; the callback changes
  the counter only, which lines 33 to 36 do not read, so its place among them makes no
  difference. Each access to the 32-bit counter is taken as indivisible.
\<close>

definition calculate_speed_test :: "state \<Rightarrow> bool" where
  "calculate_speed_test s = (word_of_int PULSES_PER_REV \<le> pulse_count s)"

definition calculate_speed_body :: "32 word \<Rightarrow> state \<Rightarrow> state" where
  "calculate_speed_body now s =
     s\<lparr>speed := fp_cast binary32 (fp_div binary64 (dlit 60) (time_per_rev now (last_pulse_time s))),
       last_pulse_time := now,
       pulse_count := 0\<rparr>"

definition calculate_speed_interrupted :: "nat \<Rightarrow> 32 word \<Rightarrow> state \<Rightarrow> state" where
  "calculate_speed_interrupted k now s =
     (if calculate_speed_test s then calculate_speed_body now ((sensor_callback ^^ k) s)
      else (sensor_callback ^^ k) s)"

text \<open>
  \<open>set_motor_speed\<close>: the target duty cycle (lines 44 to 51), the step of the current
  duty cycle towards it (lines 53 to 59), and the function itself. The level written to
  the PWM is the new \<open>current_duty_cycle\<close>. No addition or subtraction of the step can
  leave the range of \<open>int\<close>: the step is added below a target of at most 255 and
  subtracted above a target of at least 0.
\<close>

definition target_duty_cycle :: "int \<Rightarrow> fp \<Rightarrow> int" where
  "target_duty_cycle u target_speed =
     (let t = fp_to_int u
                (fp_mul binary32 (fp_div binary32 target_speed (fp_of_int binary32 TARGET_SPEED))
                   (fp_of_int binary32 MOTOR_MAX_DUTY_CYCLE));
          t = (if MOTOR_MAX_DUTY_CYCLE < t then MOTOR_MAX_DUTY_CYCLE else t);
          t = (if t < 0 then 0 else t)
      in if t < 1 then 0 else t)"

definition ramp_duty_cycle :: "int \<Rightarrow> int \<Rightarrow> int" where
  "ramp_duty_cycle t c =
     (if c < t then (let c' = c + duty_cycle_step in if t < c' then t else c')
      else if t < c then (let c' = c - duty_cycle_step in if c' < t then t else c')
      else c)"

definition set_motor_speed :: "int \<Rightarrow> fp \<Rightarrow> state \<Rightarrow> state" where
  "set_motor_speed u target_speed s =
     s\<lparr>current_duty_cycle :=
         ramp_duty_cycle (target_duty_cycle u target_speed) (current_duty_cycle s)\<rparr>"

text \<open>\<open>read_potentiometer\<close>; \<open>raw_value\<close> is what \<open>adc_read ()\<close> returns.\<close>

definition read_potentiometer :: "16 word \<Rightarrow> fp" where
  "read_potentiometer raw_value =
     (let pot_value = fp_cast binary32
            (fp_mul binary64 (fp_div binary64 (fp_of_int binary64 (uint raw_value)) (dlit 4095))
               (fp_of_int binary64 TARGET_SPEED))
      in if fp_less (fp_abs pot_value) POT_DEAD_ZONE then fp_cast binary32 (dlit 0) else pot_value)"

text \<open>
  One iteration of the loop of \<open>main\<close>. What it reads from the hardware: the number of
  sensor interrupts since \<open>calculate_speed\<close> last looked at the counter, the clock, the
  button level (\<open>gpio_get\<close>, \<open>false\<close> while the button is pressed), the ADC sample, and
  the \<open>int\<close> that an undefined conversion in \<open>set_motor_speed\<close> delivers. In the iteration
  no interrupt falls between the test and the reset of the counter in \<open>calculate_speed\<close>
  (\<open>calculate_speed_interrupted\<close> is the call where one does). The delays and the
  diagnostic output are left out.
\<close>

record cycle_input =
  pulses :: nat
  clock_ms :: "32 word"
  button :: bool
  adc :: "16 word"
  undef_int :: int

text \<open>Lines 115 to 121: the button.\<close>

definition main_button :: "bool \<Rightarrow> state \<Rightarrow> state" where
  "main_button current_button_state s =
     (if \<not> current_button_state \<and> last_button_state s
      then s\<lparr>cruise_control_active := \<not> cruise_control_active s\<rparr>
      else s)
     \<lparr>last_button_state := current_button_state\<rparr>"

text \<open>Lines 127 to 132: a change of the potentiometer ends the cruise mode.\<close>

definition pot_changed :: "fp \<Rightarrow> fp \<Rightarrow> bool" where
  "pot_changed current_pot_value last_value =
     fp_less POT_CHANGE_THRESHOLD (fp_abs (fp_sub binary32 current_pot_value last_value))"

definition main_pot_change :: "fp \<Rightarrow> state \<Rightarrow> state" where
  "main_pot_change current_pot_value s =
     (if cruise_control_active s \<and> pot_changed current_pot_value (last_pot_value s)
      then s\<lparr>cruise_control_active := False\<rparr>
      else s)
     \<lparr>last_pot_value := current_pot_value\<rparr>"

text \<open>Lines 135 to 139: the speed handed to \<open>set_motor_speed\<close>.\<close>

definition motor_source :: "fp \<Rightarrow> state \<Rightarrow> fp" where
  "motor_source current_pot_value s =
     (if cruise_control_active s then speed s else current_pot_value)"

definition main_loop_body :: "cycle_input \<Rightarrow> state \<Rightarrow> state" where
  "main_loop_body i s =
     (let s = calculate_speed (clock_ms i) ((sensor_callback ^^ pulses i) s);
          s = main_button (button i) s;
          current_pot_value = read_potentiometer (adc i);
          s = main_pot_change current_pot_value s
      in set_motor_speed (undef_int i) (motor_source current_pot_value s) s)"

text \<open>The state after the iterations that read \<open>ins\<close>, from power-on.\<close>

definition main_run :: "cycle_input list \<Rightarrow> state" where
  "main_run ins = foldl (\<lambda>s i. main_loop_body i s) init_state ins"


section \<open>The fields each function leaves alone\<close>

lemma sensor_callback_fields [simp]:
  "cruise_control_active (sensor_callback s) = cruise_control_active s"
  "last_button_state (sensor_callback s) = last_button_state s"
  "current_duty_cycle (sensor_callback s) = current_duty_cycle s"
  "last_pot_value (sensor_callback s) = last_pot_value s"
  by (simp_all add: sensor_callback_def)

lemma sensor_callbacks_fields [simp]:
  "cruise_control_active ((sensor_callback ^^ n) s) = cruise_control_active s"
  "last_button_state ((sensor_callback ^^ n) s) = last_button_state s"
  "current_duty_cycle ((sensor_callback ^^ n) s) = current_duty_cycle s"
  "last_pot_value ((sensor_callback ^^ n) s) = last_pot_value s"
  by (induction n) simp_all

lemma calculate_speed_fields [simp]:
  "cruise_control_active (calculate_speed now s) = cruise_control_active s"
  "last_button_state (calculate_speed now s) = last_button_state s"
  "current_duty_cycle (calculate_speed now s) = current_duty_cycle s"
  "last_pot_value (calculate_speed now s) = last_pot_value s"
  by (simp_all add: calculate_speed_def)

lemma main_button_fields [simp]:
  "current_duty_cycle (main_button b s) = current_duty_cycle s"
  "last_pot_value (main_button b s) = last_pot_value s"
  "speed (main_button b s) = speed s"
  "last_button_state (main_button b s) = b"
  by (simp_all add: main_button_def)

lemma main_button_cruise:
  "cruise_control_active (main_button b s) =
     (if \<not> b \<and> last_button_state s then \<not> cruise_control_active s else cruise_control_active s)"
  by (simp add: main_button_def)

lemma main_pot_change_fields [simp]:
  "current_duty_cycle (main_pot_change p s) = current_duty_cycle s"
  "last_button_state (main_pot_change p s) = last_button_state s"
  "speed (main_pot_change p s) = speed s"
  "last_pot_value (main_pot_change p s) = p"
  by (simp_all add: main_pot_change_def)

lemma main_pot_change_cruise:
  "cruise_control_active (main_pot_change p s) =
     (cruise_control_active s \<and> \<not> pot_changed p (last_pot_value s))"
  by (auto simp add: main_pot_change_def)

lemma set_motor_speed_fields [simp]:
  "cruise_control_active (set_motor_speed u t s) = cruise_control_active s"
  "last_button_state (set_motor_speed u t s) = last_button_state s"
  "last_pot_value (set_motor_speed u t s) = last_pot_value s"
  "speed (set_motor_speed u t s) = speed s"
  "pulse_count (set_motor_speed u t s) = pulse_count s"
  "last_pulse_time (set_motor_speed u t s) = last_pulse_time s"
  by (simp_all add: set_motor_speed_def)

lemma main_loop_body_cruise:
  "cruise_control_active (main_loop_body i s) =
     (cruise_control_active (main_button (button i) s) \<and>
      \<not> pot_changed (read_potentiometer (adc i)) (last_pot_value s))"
  by (simp add: main_loop_body_def Let_def main_pot_change_cruise main_button_cruise)

lemma main_loop_body_duty:
  "current_duty_cycle (main_loop_body i s) =
     ramp_duty_cycle
       (target_duty_cycle (undef_int i)
          (motor_source (read_potentiometer (adc i))
             (main_pot_change (read_potentiometer (adc i))
                (main_button (button i)
                   (calculate_speed (clock_ms i) ((sensor_callback ^^ pulses i) s))))))
       (current_duty_cycle s)"
  by (simp add: main_loop_body_def Let_def set_motor_speed_def)

lemma main_run_snoc: "main_run (ins @ [i]) = main_loop_body i (main_run ins)"
  by (simp add: main_run_def)


section \<open>Facts about rounding\<close>

subsection \<open>Rounding to an integer\<close>

lemma rne_floor_cases: "rne x = \<lfloor>x\<rfloor> \<or> rne x = \<lfloor>x\<rfloor> + 1"
  by (simp add: rne_def Let_def)

lemma rne_of_int [simp]: "rne (of_int n) = n"
  by (simp add: rne_def)

lemma rne_error: "\<bar>of_int (rne x) - x\<bar> \<le> 1 / 2"
proof -
  have "of_int \<lfloor>x\<rfloor> \<le> x" "x < of_int \<lfloor>x\<rfloor> + 1"
    by linarith+
  then show ?thesis
    by (auto simp add: rne_def Let_def)
qed

lemma rne_mono: "x \<le> y \<Longrightarrow> rne x \<le> rne y"
proof -
  assume le: "x \<le> y"
  then have fl: "\<lfloor>x\<rfloor> \<le> \<lfloor>y\<rfloor>" by (rule floor_mono)
  show ?thesis
  proof (cases "\<lfloor>x\<rfloor> = \<lfloor>y\<rfloor>")
    case True
    with le show ?thesis
      by (auto simp add: rne_def Let_def)
  next
    case False
    with fl have "\<lfloor>x\<rfloor> + 1 \<le> \<lfloor>y\<rfloor>" by simp
    moreover have "rne x \<le> \<lfloor>x\<rfloor> + 1" using rne_floor_cases [of x] by auto
    moreover have "\<lfloor>y\<rfloor> \<le> rne y" using rne_floor_cases [of y] by auto
    ultimately show ?thesis by linarith
  qed
qed

lemma rne_nonneg: "0 \<le> x \<Longrightarrow> 0 \<le> rne x"
  using rne_mono [of 0 x] by (simp add: rne_def)

subsection \<open>The binary exponent\<close>

lemma powi2_diff: "(2::real) powi a / 2 powi b = 2 powi (a - b)"
  by (simp add: power_int_diff)

lemma powi2_add: "(2::real) powi a * 2 powi b = 2 powi (a + b)"
  by (simp add: power_int_add)

lemma powi_less_imp_less: "(2::real) powi m < 2 powi n \<Longrightarrow> m < n"
  using power_int_increasing [of n m "2::real"] by (cases "m < n") auto

lemma ilog2_bounds:
  assumes "0 < x"
  shows "2 powi ilog2 x \<le> x \<and> x < 2 powi (ilog2 x + 1)"
proof (cases "1 \<le> x")
  case True
  define n where "n = \<lfloor>x\<rfloor>"
  have n: "0 < n" "of_int n \<le> x" "x < of_int n + 1"
    using True by (simp_all add: n_def)
  have b: "1 \<le> bitlen n"
    using n(1) bitlen_nonneg [of n] bitlen_eq_zero_iff [of n] by linarith
  from bitlen_bounds [OF n(1)]
  have lo: "(2::int) ^ nat (bitlen n - 1) \<le> n" and hi: "n < 2 ^ nat (bitlen n)"
    by simp_all
  have "(2::real) powi (bitlen n - 1) = of_int (2 ^ nat (bitlen n - 1))"
    using b by (simp add: power_int_nonneg_exp)
  also have "\<dots> \<le> of_int n" using lo by (simp only: of_int_le_iff)
  finally have 1: "2 powi (bitlen n - 1) \<le> x" using n(2) by linarith
  have "n + 1 \<le> 2 ^ nat (bitlen n)" using hi by simp
  then have "(of_int (n + 1) :: real) \<le> of_int (2 ^ nat (bitlen n))"
    by (simp only: of_int_le_iff)
  also have "\<dots> = 2 powi bitlen n"
    using b by (simp add: power_int_nonneg_exp)
  finally have 2: "x < 2 powi bitlen n" using n(3) by simp
  from 1 2 True show ?thesis by (simp add: ilog2_def n_def)
next
  case False
  define y where "y = 1 / x"
  define m where "m = \<lceil>y\<rceil> - 1"
  have y: "1 < y" using False assms by (simp add: y_def)
  have m: "0 < m" "of_int m < y" "y \<le> of_int m + 1"
    using y by (simp_all add: m_def less_ceiling_iff) linarith+
  have b: "1 \<le> bitlen m"
    using m(1) bitlen_nonneg [of m] bitlen_eq_zero_iff [of m] by linarith
  from bitlen_bounds [OF m(1)]
  have lo: "(2::int) ^ nat (bitlen m - 1) \<le> m" and hi: "m < 2 ^ nat (bitlen m)"
    by simp_all
  have x: "x = 1 / y" by (simp add: y_def)
  have "m + 1 \<le> 2 ^ nat (bitlen m)" using hi by simp
  then have "(of_int (m + 1) :: real) \<le> of_int (2 ^ nat (bitlen m))"
    by (simp only: of_int_le_iff)
  also have "\<dots> = 2 powi bitlen m"
    using b by (simp add: power_int_nonneg_exp)
  finally have "y \<le> 2 powi bitlen m" using m(3) by simp
  then have 1: "2 powi (- bitlen m) \<le> x"
    using y unfolding x power_int_minus_divide by (simp add: field_simps)
  have "(2::real) powi (bitlen m - 1) = of_int (2 ^ nat (bitlen m - 1))"
    using b by (simp add: power_int_nonneg_exp)
  also have "\<dots> \<le> of_int m" using lo by (simp only: of_int_le_iff)
  finally have lt: "2 powi (bitlen m - 1) < y" using m(2) by linarith
  have P: "0 < (2::real) powi (bitlen m - 1)" by simp
  have "1 / y < 1 / 2 powi (bitlen m - 1)"
    using P lt y by (simp add: field_simps)
  moreover have "(2::real) powi (- bitlen m + 1) = 1 / 2 powi (bitlen m - 1)"
    using power_int_minus_divide [of "2::real" "bitlen m - 1"] by simp
  ultimately have 2: "x < 2 powi (- bitlen m + 1)"
    unfolding x by simp
  from 1 2 False show ?thesis by (simp add: ilog2_def m_def y_def)
qed

lemma ilog2_eqI: "2 powi e \<le> x \<Longrightarrow> x < 2 powi (e + 1) \<Longrightarrow> ilog2 x = e"
proof -
  assume lo: "2 powi e \<le> x" and hi: "x < 2 powi (e + 1)"
  have "0 < x" using lo zero_less_power_int [of "2::real" e] by linarith
  from ilog2_bounds [OF this] lo hi
  have a: "2 powi ilog2 x < (2::real) powi (e + 1)" and b: "(2::real) powi e < 2 powi (ilog2 x + 1)"
    by linarith+
  from a have "ilog2 x < e + 1" by (rule powi_less_imp_less)
  moreover from b have "e < ilog2 x + 1" by (rule powi_less_imp_less)
  ultimately show ?thesis by simp
qed

lemma ilog2_mono: "0 < x \<Longrightarrow> x \<le> y \<Longrightarrow> ilog2 x \<le> ilog2 y"
proof -
  assume x: "0 < x" and le: "x \<le> y"
  from ilog2_bounds [OF x] ilog2_bounds [of y] x le
  have "2 powi ilog2 x < (2::real) powi (ilog2 y + 1)" by linarith
  then have "ilog2 x < ilog2 y + 1" by (rule powi_less_imp_less)
  then show ?thesis by simp
qed


subsection \<open>Rounding to a format\<close>

lemma quantum_pos [simp]: "0 < quantum f x"
  by (simp add: quantum_def)

lemma quantum_nonneg [simp]: "0 \<le> quantum f x"
  by (simp add: quantum_def)

lemma quantum_neq_0 [simp]: "quantum f x \<noteq> 0"
  by (simp add: quantum_def)

lemma quantum_minus [simp]: "quantum f (- x) = quantum f x"
  by (simp add: quantum_def)

lemma round_fin_0 [simp]: "round_fin f 0 = 0"
  by (simp add: round_fin_def)

lemma round_fin_minus: "round_fin f (- x) = - round_fin f x"
  by (simp add: round_fin_def sgn_minus)

lemma round_fin_pos: "0 < x \<Longrightarrow> round_fin f x = of_int (rne (x / quantum f x)) * quantum f x"
  by (simp add: round_fin_def)

lemma round_fin_nonneg: "0 \<le> x \<Longrightarrow> 0 \<le> round_fin f x"
proof (cases "x = 0")
  case True
  then show ?thesis by simp
next
  case False
  assume "0 \<le> x"
  with False have x: "0 < x" by simp
  have "0 \<le> x / quantum f x" using x by simp
  then have "0 \<le> rne (x / quantum f x)" by (rule rne_nonneg)
  then show ?thesis using x by (simp add: round_fin_pos)
qed

lemma round_fin_mono_pos:
  assumes p: "0 < precision f" and x: "0 < x" and le: "x \<le> y"
  shows "round_fin f x \<le> round_fin f y"
proof -
  define ex where "ex = max (emin f) (ilog2 x)"
  define ey where "ey = max (emin f) (ilog2 y)"
  define P where "P = int (precision f)"
  have y: "0 < y" using x le by simp
  have qx: "quantum f x = 2 powi (ex - P + 1)"
    using x by (simp add: quantum_def ex_def P_def)
  have qy: "quantum f y = 2 powi (ey - P + 1)"
    using y by (simp add: quantum_def ey_def P_def)
  have rx: "round_fin f x = of_int (rne (x / quantum f x)) * quantum f x"
    using x by (rule round_fin_pos)
  have ry: "round_fin f y = of_int (rne (y / quantum f y)) * quantum f y"
    using y by (rule round_fin_pos)
  have exy: "ex \<le> ey"
    using ilog2_mono [OF x le] by (simp add: ex_def ey_def max_def)
  show ?thesis
  proof (cases "ex = ey")
    case True
    then have q: "quantum f x = quantum f y" by (simp add: qx qy)
    have "x / quantum f y \<le> y / quantum f y"
      using le by (simp add: divide_right_mono)
    then have "rne (x / quantum f y) \<le> rne (y / quantum f y)" by (rule rne_mono)
    then have "(of_int (rne (x / quantum f y)) :: real) \<le> of_int (rne (y / quantum f y))"
      by (simp only: of_int_le_iff)
    then show ?thesis
      unfolding rx ry q by (simp add: mult_right_mono)
  next
    case False
    with exy have lt: "ex < ey" by simp
    then have ey_eq: "ey = ilog2 y" by (auto simp add: ex_def ey_def max_def split: if_splits)
    have lo_y: "2 powi ey \<le> y"
      using ilog2_bounds [OF y] by (simp add: ey_eq)
    have "ilog2 x + 1 \<le> ex + 1" by (simp add: ex_def)
    then have "(2::real) powi (ilog2 x + 1) \<le> 2 powi (ex + 1)"
      by (intro power_int_increasing) simp_all
    then have hi_x: "x \<le> 2 powi (ex + 1)"
      using ilog2_bounds [OF x] by linarith
    have "x / quantum f x \<le> 2 powi (ex + 1) / quantum f x"
      using hi_x by (simp add: divide_right_mono)
    also have "\<dots> = 2 powi ((ex + 1) - (ex - P + 1))"
      by (simp only: qx powi2_diff)
    also have "\<dots> = of_int (2 ^ precision f)"
      by (simp add: P_def)
    finally have "rne (x / quantum f x) \<le> rne (of_int (2 ^ precision f))"
      by (rule rne_mono)
    then have "(of_int (rne (x / quantum f x)) :: real) \<le> of_int (2 ^ precision f)"
      by (simp only: rne_of_int of_int_le_iff)
    then have "round_fin f x \<le> of_int (2 ^ precision f) * quantum f x"
      unfolding rx by (simp add: mult_right_mono)
    also have "\<dots> = 2 powi P * 2 powi (ex - P + 1)"
      by (simp add: qx P_def)
    also have "\<dots> = 2 powi (P + (ex - P + 1))"
      by (simp only: powi2_add)
    finally have A: "round_fin f x \<le> 2 powi (ex + 1)" by simp
    have C: "(2::real) powi (ex + 1) \<le> 2 powi ey"
      using lt by (intro power_int_increasing) simp_all
    have P1: "1 \<le> P" using p by (simp add: P_def)
    have "(of_int (2 ^ (precision f - 1)) :: real) = 2 powi (P - 1)"
      using p by (simp add: P_def power_int_nonneg_exp nat_diff_distrib)
    also have "\<dots> = 2 powi (ey - (ey - P + 1))" by simp
    also have "\<dots> = 2 powi ey / quantum f y"
      by (simp only: qy powi2_diff)
    also have "\<dots> \<le> y / quantum f y"
      using lo_y by (simp add: divide_right_mono)
    finally have "rne (of_int (2 ^ (precision f - 1))) \<le> rne (y / quantum f y)"
      by (rule rne_mono)
    then have "(of_int (2 ^ (precision f - 1)) :: real) \<le> of_int (rne (y / quantum f y))"
      by (simp only: rne_of_int of_int_le_iff)
    then have "of_int (2 ^ (precision f - 1)) * quantum f y \<le> round_fin f y"
      unfolding ry by (simp add: mult_right_mono)
    moreover have "of_int (2 ^ (precision f - 1)) * quantum f y = 2 powi (P - 1) * 2 powi (ey - P + 1)"
      using p by (simp add: qy P_def power_int_nonneg_exp nat_diff_distrib)
    moreover have "(2::real) powi (P - 1) * 2 powi (ey - P + 1) = 2 powi ((P - 1) + (ey - P + 1))"
      by (simp only: powi2_add)
    ultimately have B: "2 powi ey \<le> round_fin f y" by simp
    from A B C show ?thesis by linarith
  qed
qed

lemma round_fin_mono:
  assumes p: "0 < precision f" and le: "x \<le> y"
  shows "round_fin f x \<le> round_fin f y"
proof -
  consider "0 < x" | "x \<le> 0" "0 \<le> y" | "y < 0" by linarith
  then show ?thesis
  proof cases
    case 1
    then show ?thesis using p le by (simp add: round_fin_mono_pos)
  next
    case 2
    have "0 \<le> round_fin f (- x)" using 2(1) by (simp add: round_fin_nonneg)
    then have "round_fin f x \<le> 0" by (simp add: round_fin_minus)
    moreover have "0 \<le> round_fin f y" using 2(2) by (rule round_fin_nonneg)
    ultimately show ?thesis by linarith
  next
    case 3
    then have "round_fin f (- y) \<le> round_fin f (- x)"
      using p le by (intro round_fin_mono_pos) simp_all
    then show ?thesis by (simp add: round_fin_minus)
  qed
qed

lemma round_fin_exact:
  assumes x: "x = of_int m * 2 powi k"
    and m: "\<bar>m\<bar> < 2 ^ precision f"
    and k: "emin f - int (precision f) + 1 \<le> k"
  shows "round_fin f x = x"
proof (cases "m = 0")
  case True
  then show ?thesis by (simp add: x)
next
  case False
  define e where "e = max (emin f) (ilog2 \<bar>x\<bar>) - int (precision f) + 1"
  have ax: "\<bar>x\<bar> = of_int \<bar>m\<bar> * 2 powi k"
    by (simp add: x abs_mult)
  have pos: "0 < \<bar>x\<bar>" using False by (simp add: x)
  have "(of_int \<bar>m\<bar> :: real) < of_int (2 ^ precision f)"
    using m by (simp only: of_int_less_iff)
  then have "\<bar>x\<bar> < of_int (2 ^ precision f) * 2 powi k"
    unfolding ax by (intro mult_strict_right_mono) simp_all
  also have "\<dots> = 2 powi (int (precision f) + k)"
    by (simp add: power_int_add)
  finally have "2 powi ilog2 \<bar>x\<bar> < (2::real) powi (int (precision f) + k)"
    using ilog2_bounds [OF pos] by linarith
  then have "ilog2 \<bar>x\<bar> < int (precision f) + k" by (rule powi_less_imp_less)
  with k have ek: "e \<le> k" by (simp add: e_def)
  have q: "quantum f x = 2 powi e" by (simp add: quantum_def e_def)
  have "\<bar>x\<bar> / quantum f x = of_int \<bar>m\<bar> * (2 powi k / 2 powi e)"
    by (simp add: ax q)
  also have "2 powi k / 2 powi e = (2::real) powi (k - e)"
    by (simp add: power_int_diff)
  also have "\<dots> = of_int (2 ^ nat (k - e))"
    using ek by (simp add: power_int_nonneg_exp)
  finally have eq: "\<bar>x\<bar> / quantum f x = of_int (\<bar>m\<bar> * 2 ^ nat (k - e))" by simp
  then have xq: "of_int (\<bar>m\<bar> * 2 ^ nat (k - e)) * quantum f x = \<bar>x\<bar>"
    by (simp add: divide_eq_eq)
  have "rne (\<bar>x\<bar> / quantum f x) = \<bar>m\<bar> * 2 ^ nat (k - e)"
    by (simp only: eq rne_of_int)
  then have "of_int (rne (\<bar>x\<bar> / quantum f x)) * quantum f x = \<bar>x\<bar>"
    by (simp only: xq)
  then have "round_fin f x = sgn x * \<bar>x\<bar>" by (simp add: round_fin_def)
  then show ?thesis by (simp add: mult_sgn_abs)
qed

lemma round_fin_error: "\<bar>round_fin f x - x\<bar> \<le> quantum f x / 2"
proof -
  define a where "a = \<bar>x\<bar> / quantum f x"
  have ax: "\<bar>x\<bar> = a * quantum f x" by (simp add: a_def)
  have "round_fin f x - x = sgn x * ((of_int (rne a) - a) * quantum f x)"
    using mult_sgn_abs [of x] by (simp add: round_fin_def a_def algebra_simps)
  then have "\<bar>round_fin f x - x\<bar> = \<bar>sgn x\<bar> * (\<bar>of_int (rne a) - a\<bar> * quantum f x)"
    by (simp add: abs_mult)
  also have "\<dots> \<le> 1 * (1 / 2 * quantum f x)"
    using rne_error [of a] by (intro mult_mono mult_right_mono) (simp_all add: abs_sgn_eq)
  finally show ?thesis by simp
qed

lemma round_fin_rel_error:
  assumes "2 powi emin f \<le> \<bar>x\<bar>"
  shows "\<bar>round_fin f x - x\<bar> \<le> 2 powi (- int (precision f)) * \<bar>x\<bar>"
proof -
  have pos: "0 < \<bar>x\<bar>"
    using assms zero_less_power_int [of "2::real" "emin f"] by linarith
  from ilog2_bounds [OF pos] assms
  have "(2::real) powi emin f < 2 powi (ilog2 \<bar>x\<bar> + 1)" by linarith
  then have "emin f < ilog2 \<bar>x\<bar> + 1" by (rule powi_less_imp_less)
  then have "quantum f x = 2 powi (ilog2 \<bar>x\<bar> + (1 - int (precision f)))"
    by (simp add: quantum_def max_def algebra_simps)
  also have "\<dots> = 2 powi ilog2 \<bar>x\<bar> * 2 powi (1 - int (precision f))"
    by (simp add: power_int_add)
  also have "\<dots> \<le> \<bar>x\<bar> * 2 powi (1 - int (precision f))"
    using ilog2_bounds [OF pos] by (intro mult_right_mono) simp_all
  finally have "quantum f x / 2 \<le> \<bar>x\<bar> * (2 powi (1 - int (precision f)) / 2)" by simp
  moreover have "(2::real) powi (1 - int (precision f)) / 2 = 2 powi (- int (precision f))"
    using power_int_diff [of "2::real" "- int (precision f)" "-1"] by (simp add: power_int_minus)
  ultimately show ?thesis
    using round_fin_error [of f x] by (simp add: mult.commute)
qed


lemma fround_finite:
  "\<bar>round_fin f x\<bar> < 2 powi (emax f + 1) \<Longrightarrow> fround f x = Fin (round_fin f x)"
  by (simp add: fround_def Let_def)

lemma fround_between:
  assumes p: "0 < precision f"
    and a: "round_fin f a = a" and b: "round_fin f b = b"
    and ax: "a \<le> x" and xb: "x \<le> b"
    and fa: "- (2 powi (emax f + 1)) < a" and fb: "b < 2 powi (emax f + 1)"
  shows "fround f x = Fin (round_fin f x) \<and> a \<le> round_fin f x \<and> round_fin f x \<le> b"
proof -
  have "round_fin f a \<le> round_fin f x" using p ax by (rule round_fin_mono)
  moreover have "round_fin f x \<le> round_fin f b" using p xb by (rule round_fin_mono)
  ultimately have r: "a \<le> round_fin f x" "round_fin f x \<le> b" by (simp_all add: a b)
  with fa fb have "\<bar>round_fin f x\<bar> < 2 powi (emax f + 1)" by linarith
  with r show ?thesis by (simp add: fround_finite)
qed

lemma round_fin_powi:
  assumes "0 < precision f" "emin f \<le> k"
  shows "round_fin f (2 powi k) = 2 powi k"
proof (rule round_fin_exact [where m = 1 and k = k])
  show "(2::real) powi k = of_int 1 * 2 powi k" by simp
  show "\<bar>1::int\<bar> < 2 ^ precision f" using assms(1) by simp
  show "emin f - int (precision f) + 1 \<le> k" using assms by linarith
qed

lemma round_fin_int:
  assumes "\<bar>n\<bar> < 2 ^ precision f" "emin f < int (precision f)"
  shows "round_fin f (of_int n) = of_int n"
proof (rule round_fin_exact [where m = n and k = 0])
  show "(of_int n :: real) = of_int n * 2 powi 0" by simp
  show "\<bar>n\<bar> < 2 ^ precision f" by (rule assms)
  show "emin f - int (precision f) + 1 \<le> 0" using assms(2) by linarith
qed

text \<open>Rounding within the normal range: finite, between the same powers of two, with a
  relative error of at most \<open>2 powi - precision\<close>.\<close>

lemma fround_normal:
  assumes p: "0 < precision f"
    and lo: "2 powi l \<le> x" and hi: "x \<le> 2 powi h"
    and l: "emin f \<le> l" and h: "h \<le> emax f"
  shows "fround f x = Fin (round_fin f x) \<and> 2 powi l \<le> round_fin f x \<and> round_fin f x \<le> 2 powi h \<and>
    \<bar>round_fin f x - x\<bar> \<le> 2 powi (- int (precision f)) * x"
proof -
  have x: "0 < x" using lo zero_less_power_int [of "2::real" l] by linarith
  have lh: "l \<le> h"
  proof (rule ccontr)
    assume "\<not> l \<le> h"
    then have "(2::real) powi h < 2 powi l" by (intro power_int_strict_increasing) simp_all
    with lo hi show False by linarith
  qed
  have "(2::real) powi h < 2 powi (emax f + 1)"
    using h by (intro power_int_strict_increasing) simp_all
  moreover have "- (2 powi (emax f + 1)) < (2::real) powi l"
    using zero_less_power_int [of "2::real" l] zero_less_power_int [of "2::real" "emax f + 1"]
    by linarith
  moreover have "round_fin f (2 powi l) = 2 powi l" using p l by (rule round_fin_powi)
  moreover have "round_fin f (2 powi h) = 2 powi h" using p l lh by (intro round_fin_powi) simp_all
  ultimately have 1: "fround f x = Fin (round_fin f x) \<and> 2 powi l \<le> round_fin f x \<and>
      round_fin f x \<le> 2 powi h"
    using p lo hi by (intro fround_between) simp_all
  have "(2::real) powi emin f \<le> 2 powi l" using l by (intro power_int_increasing) simp_all
  with lo x have "2 powi emin f \<le> \<bar>x\<bar>" by simp
  from round_fin_rel_error [OF this] x
  have "\<bar>round_fin f x - x\<bar> \<le> 2 powi (- int (precision f)) * x" by simp
  with 1 show ?thesis by simp
qed

lemma binary_formats [simp]:
  "precision binary32 = 24" "emax binary32 = 127" "emin binary32 = - 126"
  "precision binary64 = 53" "emax binary64 = 1023" "emin binary64 = - 1022"
  by (simp_all add: binary32_def binary64_def emin_def)

lemma fp_of_int_exact:
  "\<bar>n\<bar> < 2 ^ 24 \<Longrightarrow> fp_of_int binary32 n = Fin (of_int n)"
  "\<bar>n\<bar> < 2 ^ 53 \<Longrightarrow> fp_of_int binary64 n = Fin (of_int n)"
proof -
  assume n: "\<bar>n\<bar> < 2 ^ 24"
  then have r: "round_fin binary32 (of_int n) = of_int n"
    by (intro round_fin_int) simp_all
  have "\<bar>of_int n :: real\<bar> < of_int (2 ^ 24)"
    using n by (simp only: of_int_abs [symmetric] of_int_less_iff)
  also have "\<dots> \<le> 2 powi (emax binary32 + 1)" by simp
  finally show "fp_of_int binary32 n = Fin (of_int n)"
    by (simp add: fp_of_int_def fround_def Let_def r not_le del: binary_formats)
next
  assume n: "\<bar>n\<bar> < 2 ^ 53"
  then have r: "round_fin binary64 (of_int n) = of_int n"
    by (intro round_fin_int) simp_all
  have "\<bar>of_int n :: real\<bar> < of_int (2 ^ 53)"
    using n by (simp only: of_int_abs [symmetric] of_int_less_iff)
  also have "\<dots> \<le> 2 powi (emax binary64 + 1)" by simp
  finally show "fp_of_int binary64 n = Fin (of_int n)"
    by (simp add: fp_of_int_def fround_def Let_def r not_le del: binary_formats)
qed


lemma round_fin_dyadic:
  assumes "\<bar>m\<bar> < 2 ^ precision f" "emin f - int (precision f) + 1 \<le> - int k"
  shows "round_fin f (of_int m / 2 ^ k) = of_int m / 2 ^ k"
proof -
  have "of_int m / 2 ^ k = of_int m * (2::real) powi (- int k)"
    by (simp add: power_int_minus_divide)
  from this assms show ?thesis by (rule round_fin_exact)
qed

lemma rel_err_trans:
  fixes a b x :: real
  assumes xa: "\<bar>a - x\<bar> \<le> \<alpha> * x" and ab: "\<bar>b - a\<bar> \<le> \<beta> * a" and \<beta>: "0 \<le> \<beta>"
  shows "\<bar>b - x\<bar> \<le> (\<alpha> + \<beta> + \<alpha> * \<beta>) * x"
proof -
  have "a \<le> (1 + \<alpha>) * x" using xa by (simp add: algebra_simps)
  then have "\<beta> * a \<le> \<beta> * ((1 + \<alpha>) * x)" using \<beta> by (rule mult_left_mono)
  with ab have "\<bar>b - a\<bar> \<le> (\<beta> + \<alpha> * \<beta>) * x" by (simp add: algebra_simps)
  with xa have "\<bar>b - a\<bar> + \<bar>a - x\<bar> \<le> (\<alpha> + \<beta> + \<alpha> * \<beta>) * x" by (simp add: algebra_simps)
  then show ?thesis by linarith
qed


lemma rel_err_inverse:
  fixes t e c \<alpha> :: real
  assumes te: "\<bar>t - e\<bar> \<le> \<alpha> * e" and e: "0 < e" and \<alpha>: "0 \<le> \<alpha>" "\<alpha> < 1" and c: "0 \<le> c"
  shows "\<bar>c / t - c / e\<bar> \<le> \<alpha> / (1 - \<alpha>) * (c / e)"
proof -
  have lo: "(1 - \<alpha>) * e \<le> t" using te by (simp add: algebra_simps abs_le_iff)
  have "0 < (1 - \<alpha>) * e" using e \<alpha> by simp
  with lo have t: "0 < t" by linarith
  have "c / t - c / e = c * (e - t) / (t * e)"
    using t e by (simp add: field_simps)
  then have "\<bar>c / t - c / e\<bar> = c * \<bar>t - e\<bar> / (t * e)"
    using t e c by (simp add: abs_mult abs_minus_commute)
  also have "\<dots> \<le> c * (\<alpha> * e) / (t * e)"
    using te t e c by (intro divide_right_mono mult_left_mono) simp_all
  also have "\<dots> = c * \<alpha> / t" using e by simp
  also have "\<dots> \<le> c * \<alpha> / ((1 - \<alpha>) * e)"
    using lo e \<alpha> c t by (intro divide_left_mono mult_pos_pos) simp_all
  also have "\<dots> = \<alpha> / (1 - \<alpha>) * (c / e)" by simp
  finally show ?thesis .
qed


section \<open>Evaluating the arithmetic at numerals\<close>

lemmas fp_eval = fround_def round_fin_def quantum_def ilog2_def rne_def emin_def
  binary32_def binary64_def Let_def power_int_minus compute_bitlen fp_trunc_def
  dlit_def fp_of_int_def

lemma fround_0 [simp]: "fround f 0 = Fin 0"
  by (simp add: fround_def round_fin_def power_int_def not_le)

lemma double_literals:
  "dlit 0 = Fin 0" "dlit 60 = Fin 60" "dlit 1000 = Fin 1000" "dlit 4095 = Fin 4095"
  "dlit (1 / 2) = Fin (1 / 2)"
  "dlit (1 / 5) = Fin (3602879701896397 / 18014398509481984)"
  by (simp_all add: fp_eval)

lemma int_constants:
  "fp_of_int binary32 TARGET_SPEED = Fin 20"
  "fp_of_int binary64 TARGET_SPEED = Fin 20"
  "fp_of_int binary32 MOTOR_MAX_DUTY_CYCLE = Fin 255"
  by (simp_all add: fp_eval TARGET_SPEED_def MOTOR_MAX_DUTY_CYCLE_def)

lemma read_potentiometer_0: "read_potentiometer 0 = Fin 0"
proof -
  have "fp_of_int binary64 (uint (0 :: 16 word)) = Fin 0"
    by (simp add: fp_of_int_def)
  then show ?thesis
    by (simp add: read_potentiometer_def double_literals int_constants POT_DEAD_ZONE_def)
qed

lemma read_potentiometer_4095: "read_potentiometer 4095 = Fin 20"
proof -
  have "fp_of_int binary64 (uint (4095 :: 16 word)) = Fin 4095"
    by (simp add: fp_eval)
  moreover have "fround binary64 20 = Fin 20" "fround binary32 20 = Fin 20" "fround binary64 1 = Fin 1"
    by (simp_all add: fp_eval)
  ultimately show ?thesis
    by (simp add: read_potentiometer_def double_literals int_constants POT_DEAD_ZONE_def)
qed


section \<open>The motor command\<close>

lemma target_duty_cycle_range:
  "0 \<le> target_duty_cycle u v \<and> target_duty_cycle u v \<le> 255"
  by (simp add: target_duty_cycle_def Let_def MOTOR_MAX_DUTY_CYCLE_def)

lemma ramp_duty_cycle_step: "\<bar>ramp_duty_cycle t c - c\<bar> \<le> 20"
  by (simp add: ramp_duty_cycle_def Let_def duty_cycle_step_def)

lemma ramp_duty_cycle_range:
  assumes "0 \<le> t" "t \<le> 255" "0 \<le> c" "c \<le> 255"
  shows "0 \<le> ramp_duty_cycle t c \<and> ramp_duty_cycle t c \<le> 255"
  using assms by (simp add: ramp_duty_cycle_def Let_def duty_cycle_step_def)

lemma main_run_duty_range:
  "0 \<le> current_duty_cycle (main_run ins) \<and> current_duty_cycle (main_run ins) \<le> 255"
proof (induction ins rule: rev_induct)
  case Nil
  show ?case by (simp add: main_run_def init_state_def)
next
  case (snoc i ins)
  then show ?case
    unfolding main_run_snoc main_loop_body_duty
    using ramp_duty_cycle_range target_duty_cycle_range by blast
qed

text \<open>
  C1. After any number of iterations from power-on, the current duty cycle lies in
  0..255; a call of \<open>set_motor_speed\<close> from there, with any target speed and whatever an
  undefined conversion delivers, leaves it in 0..255 and moves it by at most 20; so
  does the next iteration of the loop.
\<close>

theorem duty_cycle_bounded_and_slew_limited:
  "0 \<le> current_duty_cycle (main_run ins) \<and> current_duty_cycle (main_run ins) \<le> 255 \<and>
   0 \<le> current_duty_cycle (set_motor_speed u target_speed (main_run ins)) \<and>
   current_duty_cycle (set_motor_speed u target_speed (main_run ins)) \<le> 255 \<and>
   \<bar>current_duty_cycle (set_motor_speed u target_speed (main_run ins))
      - current_duty_cycle (main_run ins)\<bar> \<le> 20 \<and>
   \<bar>current_duty_cycle (main_run (ins @ [i])) - current_duty_cycle (main_run ins)\<bar> \<le> 20"
proof -
  have r: "0 \<le> current_duty_cycle (main_run ins) \<and> current_duty_cycle (main_run ins) \<le> 255"
    by (rule main_run_duty_range)
  have "0 \<le> current_duty_cycle (set_motor_speed u target_speed (main_run ins)) \<and>
      current_duty_cycle (set_motor_speed u target_speed (main_run ins)) \<le> 255"
    using r ramp_duty_cycle_range target_duty_cycle_range
    by (simp add: set_motor_speed_def)
  moreover have "\<bar>current_duty_cycle (set_motor_speed u target_speed (main_run ins))
      - current_duty_cycle (main_run ins)\<bar> \<le> 20"
    by (simp add: set_motor_speed_def ramp_duty_cycle_step)
  moreover have "\<bar>current_duty_cycle (main_run (ins @ [i])) - current_duty_cycle (main_run ins)\<bar> \<le> 20"
    unfolding main_run_snoc main_loop_body_duty by (rule ramp_duty_cycle_step)
  ultimately show ?thesis using r by blast
qed

lemma target_duty_cycle_clamp:
  "target_duty_cycle u x =
     max 0 (min 255 (fp_to_int u (fp_mul binary32 (fp_div binary32 x (Fin 20)) (Fin 255))))"
  by (simp add: target_duty_cycle_def Let_def int_constants)
    (simp add: MOTOR_MAX_DUTY_CYCLE_def max_def min_def)

lemma target_duty_cycle_finite:
  assumes "fp_mul binary32 (fp_div binary32 x (Fin 20)) (Fin 255) = Fin p"
    and "- (2 ^ 31) - 1 < p" "p < 2 ^ 31"
  shows "target_duty_cycle u x = max 0 (min 255 \<lfloor>p\<rfloor>)"
proof -
  have "- (2 ^ 31) \<le> fp_trunc p" "fp_trunc p < 2 ^ 31"
    using assms(2,3) by (simp_all add: fp_trunc_def le_floor_iff floor_less_iff le_ceiling_iff ceiling_less_iff)
  then have "fp_to_int u (Fin p) = fp_trunc p" by simp
  moreover have "max 0 (min 255 (fp_trunc p)) = max 0 (min 255 \<lfloor>p\<rfloor>)"
    by (simp add: fp_trunc_def max_def min_def) linarith
  ultimately show ?thesis by (simp add: target_duty_cycle_clamp assms(1))
qed

lemma ramp_to_zero: "0 \<le> c \<Longrightarrow> (ramp_duty_cycle 0 ^^ n) c = max 0 (c - 20 * int n)"
proof (induction n)
  case 0
  then show ?case by simp
next
  case (Suc n)
  then show ?case
    by (simp add: ramp_duty_cycle_def Let_def duty_cycle_step_def max_def)
qed

lemma set_motor_speed_funpow:
  "current_duty_cycle ((set_motor_speed u x ^^ n) s) =
     (ramp_duty_cycle (target_duty_cycle u x) ^^ n) (current_duty_cycle s)"
  by (induction n) (simp_all add: set_motor_speed_def)

lemma target_product_value:
  assumes v: "1 / 2 ^ 100 \<le> v" "v \<le> 2 ^ 100"
  shows "\<exists>p. fp_mul binary32 (fp_div binary32 (Fin v) (Fin 20)) (Fin 255) = Fin p \<and>
    \<bar>p - v / 20 * 255\<bar> \<le> v / 20 * 255 / 2 ^ 22"
proof -
  define q where "q = round_fin binary32 (v / 20)"
  define p where "p = round_fin binary32 (q * 255)"
  have "2 powi (- 105) \<le> v / 20" "v / 20 \<le> 2 powi 96"
    using v by (simp_all add: power_int_minus_divide)
  then have 1: "fround binary32 (v / 20) = Fin q \<and> 2 powi (- 105) \<le> q \<and> q \<le> 2 powi 96 \<and>
      \<bar>q - v / 20\<bar> \<le> 2 powi (- int (precision binary32)) * (v / 20)"
    unfolding q_def by (intro fround_normal) simp_all
  then have "2 powi (- 105) \<le> q * 255" "q * 255 \<le> 2 powi 104"
    by (simp_all add: power_int_minus_divide)
  then have 2: "fround binary32 (q * 255) = Fin p \<and> 2 powi (- 105) \<le> p \<and> p \<le> 2 powi 104 \<and>
      \<bar>p - q * 255\<bar> \<le> 2 powi (- int (precision binary32)) * (q * 255)"
    unfolding p_def by (intro fround_normal) simp_all
  have v0: "0 \<le> v / 20 * 255" using v(1) by (simp add: field_simps)
  from 1 have "\<bar>q - v / 20\<bar> \<le> 1 / 2 ^ 24 * (v / 20)"
    by (simp add: power_int_minus_divide)
  then have e1: "\<bar>q * 255 - v / 20 * 255\<bar> \<le> 1 / 2 ^ 24 * (v / 20 * 255)"
    by (simp add: abs_if split: if_splits)
  from 2 have e2: "\<bar>p - q * 255\<bar> \<le> 1 / 2 ^ 24 * (q * 255)"
    by (simp add: power_int_minus_divide)
  have "\<bar>p - v / 20 * 255\<bar> \<le> (1 / 2 ^ 24 + 1 / 2 ^ 24 + 1 / 2 ^ 24 * (1 / 2 ^ 24)) * (v / 20 * 255)"
    using rel_err_trans [OF e1 e2] by simp
  also have "\<dots> \<le> 1 / 2 ^ 22 * (v / 20 * 255)"
    using v0 by (intro mult_right_mono) simp_all
  finally have "\<bar>p - v / 20 * 255\<bar> \<le> v / 20 * 255 / 2 ^ 22" by simp
  moreover have "fp_mul binary32 (fp_div binary32 (Fin v) (Fin 20)) (Fin 255) = Fin p"
    using 1 2 by simp
  ultimately show ?thesis by blast
qed

lemma target_product_range:
  assumes v: "0 \<le> v" "v \<le> 2 ^ 27"
  shows "\<exists>p. fp_mul binary32 (fp_div binary32 (Fin v) (Fin 20)) (Fin 255) = Fin p \<and>
    0 \<le> p \<and> p < 2 ^ 31"
proof -
  define q where "q = round_fin binary32 (v / 20)"
  define p where "p = round_fin binary32 (q * 255)"
  have z: "round_fin binary32 0 = 0" by simp
  have b1: "round_fin binary32 (2 ^ 23) = 2 ^ 23"
    using round_fin_int [of "2 ^ 23" binary32] by simp
  have b2: "round_fin binary32 (255 * 2 ^ 23) = 255 * 2 ^ 23"
    using round_fin_exact [of "255 * 2 ^ 23" 255 23 binary32] by simp
  have "0 \<le> v / 20" "v / 20 \<le> 2 ^ 23" using v by simp_all
  then have 1: "fround binary32 (v / 20) = Fin q \<and> 0 \<le> q \<and> q \<le> 2 ^ 23"
    unfolding q_def by (intro fround_between z b1) simp_all
  then have "0 \<le> q * 255" "q * 255 \<le> 255 * 2 ^ 23" by simp_all
  then have 2: "fround binary32 (q * 255) = Fin p \<and> 0 \<le> p \<and> p \<le> 255 * 2 ^ 23"
    unfolding p_def by (intro fround_between z b2) simp_all
  have "fp_mul binary32 (fp_div binary32 (Fin v) (Fin 20)) (Fin 255) = Fin p"
    using 1 2 by simp
  moreover have "0 \<le> p" "p < 2 ^ 31" using 2 by simp_all
  ultimately show ?thesis by blast
qed

text \<open>
  C8, as amended. The target duty cycle lies in 0..255 for every input speed. For
  every speed from 0 to \<open>2 ^ 27\<close> the product \<open>(target_speed / 20) * 255\<close>, computed in
  \<open>float\<close>, is a finite \<open>p\<close> below \<open>2 ^ 31\<close>, the target is \<open>\<lfloor>p\<rfloor>\<close> clamped to 0..255, and
  from \<open>2 ^ - 100\<close> on \<open>p\<close> differs from the exact \<open>target_speed / 20 * 255\<close> by at most its
  \<open>2 ^ 22\<close>th part. In general, where the product is a finite \<open>p\<close> whose integral part
  fits an \<open>int\<close>, the target is \<open>\<lfloor>p\<rfloor>\<close> clamped to 0..255, so it is exactly 0 whenever \<open>p\<close> is
  below one duty unit. While the target is 0, each call of \<open>set_motor_speed\<close> lowers a
  current duty cycle \<open>c\<close> by 20 and stops at 0: after \<open>n\<close> calls it is
  \<open>max 0 (c - 20 * n)\<close>.
\<close>

theorem target_duty_cycle_where_conversion_defined:
  "0 \<le> target_duty_cycle u x \<and> target_duty_cycle u x \<le> 255 \<and>
   (\<forall>v. x = Fin v \<and> 0 \<le> v \<and> v \<le> 2 ^ 27 \<longrightarrow>
      (\<exists>p. fp_mul binary32 (fp_div binary32 x (Fin 20)) (Fin 255) = Fin p \<and>
         0 \<le> p \<and> p < 2 ^ 31 \<and>
         target_duty_cycle u x = max 0 (min 255 \<lfloor>p\<rfloor>) \<and>
         (1 / 2 ^ 100 \<le> v \<longrightarrow> \<bar>p - v / 20 * 255\<bar> \<le> v / 20 * 255 / 2 ^ 22))) \<and>
   (\<forall>p. fp_mul binary32 (fp_div binary32 x (Fin 20)) (Fin 255) = Fin p \<and>
        - (2 ^ 31) - 1 < p \<and> p < 2 ^ 31 \<longrightarrow>
      target_duty_cycle u x = max 0 (min 255 \<lfloor>p\<rfloor>) \<and>
      (p < 1 \<longrightarrow> target_duty_cycle u x = 0)) \<and>
   (target_duty_cycle u x = 0 \<and> 0 \<le> current_duty_cycle s \<longrightarrow>
      (\<forall>n. current_duty_cycle ((set_motor_speed u x ^^ n) s)
         = max 0 (current_duty_cycle s - 20 * int n)))"
proof -
  have 1: "0 \<le> target_duty_cycle u x \<and> target_duty_cycle u x \<le> 255"
    by (rule target_duty_cycle_range)
  have 2: "\<exists>p. fp_mul binary32 (fp_div binary32 x (Fin 20)) (Fin 255) = Fin p \<and>
      0 \<le> p \<and> p < 2 ^ 31 \<and>
      target_duty_cycle u x = max 0 (min 255 \<lfloor>p\<rfloor>) \<and>
      (1 / 2 ^ 100 \<le> v \<longrightarrow> \<bar>p - v / 20 * 255\<bar> \<le> v / 20 * 255 / 2 ^ 22)"
    if h: "x = Fin v \<and> 0 \<le> v \<and> v \<le> 2 ^ 27" for v
  proof -
    from h target_product_range [of v] obtain p where
      p: "fp_mul binary32 (fp_div binary32 x (Fin 20)) (Fin 255) = Fin p" "0 \<le> p" "p < 2 ^ 31"
      by auto
    then have t: "target_duty_cycle u x = max 0 (min 255 \<lfloor>p\<rfloor>)"
      by (intro target_duty_cycle_finite) simp_all
    have "\<bar>p - v / 20 * 255\<bar> \<le> v / 20 * 255 / 2 ^ 22" if "1 / 2 ^ 100 \<le> v"
    proof -
      have "v \<le> 2 ^ 100" using h by (simp add: order_trans [of v "2 ^ 27"])
      from target_product_value [OF that this] h p(1) show ?thesis by auto
    qed
    with p t show ?thesis by blast
  qed
  have 3: "target_duty_cycle u x = max 0 (min 255 \<lfloor>p\<rfloor>) \<and> (p < 1 \<longrightarrow> target_duty_cycle u x = 0)"
    if "fp_mul binary32 (fp_div binary32 x (Fin 20)) (Fin 255) = Fin p \<and>
      - (2 ^ 31) - 1 < p \<and> p < 2 ^ 31" for p
  proof -
    from that have t: "target_duty_cycle u x = max 0 (min 255 \<lfloor>p\<rfloor>)"
      by (simp add: target_duty_cycle_finite)
    have "target_duty_cycle u x = 0" if "p < 1"
    proof -
      from that have "\<lfloor>p\<rfloor> \<le> 0" by (simp add: floor_le_iff)
      with t show ?thesis by simp
    qed
    with t show ?thesis by simp
  qed
  have 4: "current_duty_cycle ((set_motor_speed u x ^^ n) s)
      = max 0 (current_duty_cycle s - 20 * int n)"
    if "target_duty_cycle u x = 0 \<and> 0 \<le> current_duty_cycle s" for n
    using that by (simp add: set_motor_speed_funpow ramp_to_zero)
  from 1 2 3 4 show ?thesis by blast
qed

theorem target_duty_cycle_where_conversion_defined_witness:
  "(0 :: real) \<le> 1 / 32 \<and> (1 / 32 :: real) \<le> 2 ^ 27 \<and> (1 / 2 ^ 100 :: real) \<le> 1 / 32 \<and>
   fp_mul binary32 (fp_div binary32 (Fin (1 / 32)) (Fin 20)) (Fin 255) = Fin (51 / 128) \<and>
   \<bar>51 / 128 - 1 / 32 / 20 * 255 :: real\<bar> \<le> 1 / 32 / 20 * 255 / 2 ^ 22 \<and>
   target_duty_cycle 0 (Fin (1 / 32)) = 0 \<and>
   current_duty_cycle
     ((set_motor_speed 0 (Fin (1 / 32)) ^^ 1) (init_state\<lparr>current_duty_cycle := 50\<rparr>)) = 30 \<and>
   current_duty_cycle
     ((set_motor_speed 0 (Fin (1 / 32)) ^^ 2) (init_state\<lparr>current_duty_cycle := 50\<rparr>)) = 10 \<and>
   current_duty_cycle
     ((set_motor_speed 0 (Fin (1 / 32)) ^^ 3) (init_state\<lparr>current_duty_cycle := 50\<rparr>)) = 0 \<and>
   target_duty_cycle 0 (Fin 10) = 127"
proof -
  note th = target_duty_cycle_where_conversion_defined
    [of 0 "Fin (1 / 32)" "init_state\<lparr>current_duty_cycle := 50\<rparr>"]
  have p: "fp_mul binary32 (fp_div binary32 (Fin (1 / 32)) (Fin 20)) (Fin 255) = Fin (51 / 128)"
    by (simp add: fp_eval)
  from th have "fp_mul binary32 (fp_div binary32 (Fin (1 / 32)) (Fin 20)) (Fin 255) = Fin (51 / 128) \<and>
      - (2 ^ 31) - 1 < (51 / 128 :: real) \<and> (51 / 128 :: real) < 2 ^ 31 \<longrightarrow>
      target_duty_cycle 0 (Fin (1 / 32)) = max 0 (min 255 \<lfloor>51 / 128 :: real\<rfloor>) \<and>
      ((51 / 128 :: real) < 1 \<longrightarrow> target_duty_cycle 0 (Fin (1 / 32)) = 0)"
    by blast
  with p have t: "target_duty_cycle 0 (Fin (1 / 32)) = 0"
    by simp
  have c: "0 \<le> current_duty_cycle (init_state\<lparr>current_duty_cycle := 50\<rparr>)"
    by simp
  from th t c have "\<forall>n. current_duty_cycle
      ((set_motor_speed 0 (Fin (1 / 32)) ^^ n) (init_state\<lparr>current_duty_cycle := 50\<rparr>))
        = max 0 (current_duty_cycle (init_state\<lparr>current_duty_cycle := 50\<rparr>) - 20 * int n)"
    by blast
  then have a: "current_duty_cycle
      ((set_motor_speed 0 (Fin (1 / 32)) ^^ n) (init_state\<lparr>current_duty_cycle := 50\<rparr>))
        = max 0 (50 - 20 * int n)" for n
    by simp
  have p10: "fp_mul binary32 (fp_div binary32 (Fin 10) (Fin 20)) (Fin 255) = Fin (255 / 2)"
    by (simp add: fp_eval)
  from target_duty_cycle_where_conversion_defined [of 0 "Fin 10" init_state]
  have "fp_mul binary32 (fp_div binary32 (Fin 10) (Fin 20)) (Fin 255) = Fin (255 / 2) \<and>
      - (2 ^ 31) - 1 < (255 / 2 :: real) \<and> (255 / 2 :: real) < 2 ^ 31 \<longrightarrow>
      target_duty_cycle 0 (Fin 10) = max 0 (min 255 \<lfloor>255 / 2 :: real\<rfloor>) \<and>
      ((255 / 2 :: real) < 1 \<longrightarrow> target_duty_cycle 0 (Fin 10) = 0)"
    by blast
  with p10 have m: "target_duty_cycle 0 (Fin 10) = 127"
    by simp
  from a [of 1] a [of 2] a [of 3] p t m show ?thesis
    by (simp only: max_def) simp
qed

text \<open>
  The claim C8 itself, for every input speed, fails where the conversion of the product
  to \<open>int\<close> is undefined in C. For the speed \<open>+\<infinity>\<close> (which \<open>calculate_speed\<close> can store) and
  for the speed 21990232555520, whose product is \<open>255 * 2 ^ 40\<close>, a conversion that
  delivers the least \<open>int\<close> gives the target 0, where the product clamped to 0..255 is
  255.
\<close>

theorem target_duty_cycle_undefined_conversion:
  "target_duty_cycle (- 2147483648) PInf = 0 \<and>
   target_duty_cycle (- 2147483648) (Fin 21990232555520) = 0 \<and>
   max 0 (min 255 \<lfloor>21990232555520 / 20 * 255 :: real\<rfloor>) = 255"
  by (simp add: target_duty_cycle_clamp) (simp add: fp_eval)


section \<open>The speed estimate\<close>

text \<open>
  C4. With fewer than \<open>PULSES_PER_REV\<close> (3) pulses counted, \<open>calculate_speed\<close> changes
  nothing: the speed, the time of the last sample and the pulse count stay as they are,
  and so does the rest of the state.
\<close>

theorem calculate_speed_below_threshold:
  "pulse_count s < 3 \<Longrightarrow>
   speed (calculate_speed now s) = speed s \<and>
   last_pulse_time (calculate_speed now s) = last_pulse_time s \<and>
   pulse_count (calculate_speed now s) = pulse_count s \<and>
   calculate_speed now s = s"
  by (simp add: calculate_speed_def PULSES_PER_REV_def not_le [symmetric])

theorem calculate_speed_below_threshold_witness:
  "pulse_count (init_state\<lparr>pulse_count := 2\<rparr>) < 3 \<and>
   speed (calculate_speed 5000 (init_state\<lparr>pulse_count := 2\<rparr>)) = Fin 0 \<and>
   last_pulse_time (calculate_speed 5000 (init_state\<lparr>pulse_count := 2\<rparr>)) = 0 \<and>
   pulse_count (calculate_speed 5000 (init_state\<lparr>pulse_count := 2\<rparr>)) = 2"
  using calculate_speed_below_threshold [of "init_state\<lparr>pulse_count := 2\<rparr>" 5000]
  by (simp add: init_state_def)

lemma uint32_exact: "fp_of_int binary64 (uint (w :: 32 word)) = Fin (real (unat w))"
proof -
  have "uint w < 2 ^ 32" using uint_bounded [of w] by simp
  then have "\<bar>uint w\<bar> < 2 ^ 53" by simp
  then show ?thesis by (simp add: fp_of_int_exact)
qed

lemma time_per_rev_value:
  fixes now last_time :: "32 word"
  assumes "now \<noteq> last_time"
  shows "1 \<le> real (unat (now - last_time)) \<and>
    (\<exists>t. time_per_rev now last_time = Fin t \<and> 1 / 2 ^ 10 \<le> t \<and> t \<le> 2 ^ 23 \<and>
    \<bar>t - real (unat (now - last_time)) / 1000\<bar>
      \<le> (1 / 2 ^ 53 + 1 / 2 ^ 24 + 1 / 2 ^ 53 * (1 / 2 ^ 24)) * (real (unat (now - last_time)) / 1000))"
proof -
  define n where "n = (unsigned (now - last_time) :: real)"
  define d where "d = round_fin binary64 (n / 1000)"
  define t where "t = round_fin binary32 d"
  have "now - last_time \<noteq> 0" using assms by simp
  then have "1 \<le> unat (now - last_time)"
    by (simp add: unat_eq_0 Suc_le_eq unat_gt_0)
  then have "real 1 \<le> real (unat (now - last_time))" by (simp only: of_nat_le_iff)
  moreover have "unat (now - last_time) < 2 ^ 32" using unsigned_less [of "now - last_time"] by simp
  then have "real (unat (now - last_time)) < real (2 ^ 32)" by (simp only: of_nat_less_iff)
  ultimately have n: "1 \<le> n" "n < 2 ^ 32" by (simp_all add: n_def)
  have 1: "fround binary64 (n / 1000) = Fin d \<and> 2 powi (- 10) \<le> d \<and> d \<le> 2 powi 23 \<and>
      \<bar>d - n / 1000\<bar> \<le> 2 powi (- int (precision binary64)) * (n / 1000)"
    unfolding d_def using n by (intro fround_normal) (simp_all add: power_int_minus_divide)
  then have 2: "fround binary32 d = Fin t \<and> 2 powi (- 10) \<le> t \<and> t \<le> 2 powi 23 \<and>
      \<bar>t - d\<bar> \<le> 2 powi (- int (precision binary32)) * d"
    unfolding t_def by (intro fround_normal) simp_all
  from 1 have e1: "\<bar>d - n / 1000\<bar> \<le> 1 / 2 ^ 53 * (n / 1000)"
    by (simp add: power_int_minus_divide)
  from 2 have e2: "\<bar>t - d\<bar> \<le> 1 / 2 ^ 24 * d"
    by (simp add: power_int_minus_divide)
  have "\<bar>t - n / 1000\<bar> \<le> (1 / 2 ^ 53 + 1 / 2 ^ 24 + 1 / 2 ^ 53 * (1 / 2 ^ 24)) * (n / 1000)"
    using rel_err_trans [OF e1 e2] by simp
  moreover have "time_per_rev now last_time = Fin t"
    using 1 2 by (simp add: time_per_rev_def uint32_exact double_literals n_def [symmetric])
  moreover have "1 / 2 ^ 10 \<le> t" "t \<le> 2 ^ 23"
    using 2 by (simp_all add: power_int_minus_divide)
  ultimately show ?thesis using n by (auto simp add: n_def)
qed


lemma calculate_speed_sample:
  assumes cnt: "3 \<le> pulse_count s" and ne: "now \<noteq> last_pulse_time s"
  shows "\<exists>v. calculate_speed now s = s\<lparr>speed := Fin v, last_pulse_time := now, pulse_count := 0\<rparr> \<and>
    1 / 2 ^ 18 \<le> v \<and> v \<le> 2 ^ 16 \<and>
    \<bar>v - 60 / (real (unat (now - last_pulse_time s)) / 1000)\<bar>
      \<le> 60 / (real (unat (now - last_pulse_time s)) / 1000) / 2 ^ 22"
proof -
  define e where "e = real (unat (now - last_pulse_time s)) / 1000"
  define \<alpha> :: real where "\<alpha> = 1 / 2 ^ 53 + 1 / 2 ^ 24 + 1 / 2 ^ 53 * (1 / 2 ^ 24)"
  from time_per_rev_value [OF ne] obtain t where
    e: "0 < e" and t: "time_per_rev now (last_pulse_time s) = Fin t" "1 / 2 ^ 10 \<le> t" "t \<le> 2 ^ 23"
    and te: "\<bar>t - e\<bar> \<le> \<alpha> * e"
    unfolding e_def \<alpha>_def by auto
  define d where "d = round_fin binary64 (60 / t)"
  define v where "v = round_fin binary32 d"
  have tpos: "0 < t" using t(2) by (simp add: field_simps) 
  have "60 / 2 ^ 23 \<le> 60 / t" using t(3) tpos by (intro divide_left_mono) simp_all
  moreover have "60 / t \<le> 60 / (1 / 2 ^ 10)" using t(2) tpos by (intro divide_left_mono) simp_all
  ultimately have y: "2 powi (- 18) \<le> 60 / t" "60 / t \<le> 2 powi 16"
    by (simp_all add: power_int_minus_divide)
  have 1: "fround binary64 (60 / t) = Fin d \<and> 2 powi (- 18) \<le> d \<and> d \<le> 2 powi 16 \<and>
      \<bar>d - 60 / t\<bar> \<le> 2 powi (- int (precision binary64)) * (60 / t)"
    unfolding d_def using y by (intro fround_normal) simp_all
  then have 2: "fround binary32 d = Fin v \<and> 2 powi (- 18) \<le> v \<and> v \<le> 2 powi 16 \<and>
      \<bar>v - d\<bar> \<le> 2 powi (- int (precision binary32)) * d"
    unfolding v_def by (intro fround_normal) simp_all
  from 1 have e1: "\<bar>d - 60 / t\<bar> \<le> 1 / 2 ^ 53 * (60 / t)"
    by (simp add: power_int_minus_divide)
  from 2 have e2: "\<bar>v - d\<bar> \<le> 1 / 2 ^ 24 * d"
    by (simp add: power_int_minus_divide)
  have \<alpha>: "0 \<le> \<alpha>" "\<alpha> < 1" by (simp_all add: \<alpha>_def)
  have e0: "\<bar>60 / t - 60 / e\<bar> \<le> \<alpha> / (1 - \<alpha>) * (60 / e)"
    using te e \<alpha> by (intro rel_err_inverse) simp_all
  have "\<bar>v - 60 / e\<bar> \<le> (\<alpha> / (1 - \<alpha>) + 1 / 2 ^ 53 + \<alpha> / (1 - \<alpha>) * (1 / 2 ^ 53) + 1 / 2 ^ 24
      + (\<alpha> / (1 - \<alpha>) + 1 / 2 ^ 53 + \<alpha> / (1 - \<alpha>) * (1 / 2 ^ 53)) * (1 / 2 ^ 24)) * (60 / e)"
    using rel_err_trans [OF rel_err_trans [OF e0 e1] e2] by simp
  also have "\<dots> \<le> 1 / 2 ^ 22 * (60 / e)"
    using e by (intro mult_right_mono) (simp_all add: \<alpha>_def)
  finally have err: "\<bar>v - 60 / e\<bar> \<le> 60 / e / 2 ^ 22" by simp
  have "speed (calculate_speed now s) = Fin v"
    using cnt 1 2 tpos
    by (simp add: calculate_speed_def PULSES_PER_REV_def t(1) double_literals)
  then have "calculate_speed now s = s\<lparr>speed := Fin v, last_pulse_time := now, pulse_count := 0\<rparr>"
    using cnt by (simp add: calculate_speed_def PULSES_PER_REV_def)
  moreover have "1 / 2 ^ 18 \<le> v" "v \<le> 2 ^ 16"
    using 2 by (simp_all add: power_int_minus_divide)
  ultimately show ?thesis using err unfolding e_def by blast
qed


text \<open>
  C5, as amended. When at least \<open>PULSES_PER_REV\<close> (3) pulses are counted and the clock
  differs from the time of the last sample, \<open>calculate_speed\<close> stores a finite speed: the
  quotient of 60 and the elapsed seconds, computed in floating point and rounded to
  \<open>float\<close>, which differs from the exact quotient by at most its \<open>2 ^ 22\<close>th part. It
  sets the pulse count to zero and the time of the last sample to the clock. Scenario A
  of the specification (1500 ms, hence 40 RPM, exactly) is the witness; for 7000 ms the
  stored speed is not 60 / 7.
\<close>

theorem calculate_speed_rounded_quotient:
  "3 \<le> pulse_count s \<Longrightarrow> now \<noteq> last_pulse_time s \<Longrightarrow>
   \<exists>v. speed (calculate_speed now s) = Fin v \<and>
     \<bar>v - 60 / (real (unat (now - last_pulse_time s)) / 1000)\<bar>
       \<le> 60 / (real (unat (now - last_pulse_time s)) / 1000) / 2 ^ 22 \<and>
     pulse_count (calculate_speed now s) = 0 \<and>
     last_pulse_time (calculate_speed now s) = now"
proof -
  assume "3 \<le> pulse_count s" "now \<noteq> last_pulse_time s"
  from calculate_speed_sample [OF this] obtain v where
    "calculate_speed now s = s\<lparr>speed := Fin v, last_pulse_time := now, pulse_count := 0\<rparr>"
    "\<bar>v - 60 / (real (unat (now - last_pulse_time s)) / 1000)\<bar>
       \<le> 60 / (real (unat (now - last_pulse_time s)) / 1000) / 2 ^ 22"
    by blast
  then show ?thesis by simp
qed

theorem calculate_speed_rounded_quotient_witness:
  "3 \<le> pulse_count (init_state\<lparr>pulse_count := 3\<rparr>) \<and>
   1500 \<noteq> last_pulse_time (init_state\<lparr>pulse_count := 3\<rparr>) \<and>
   speed (calculate_speed 1500 (init_state\<lparr>pulse_count := 3\<rparr>)) = Fin 40 \<and>
   pulse_count (calculate_speed 1500 (init_state\<lparr>pulse_count := 3\<rparr>)) = 0 \<and>
   last_pulse_time (calculate_speed 1500 (init_state\<lparr>pulse_count := 3\<rparr>)) = 1500"
proof -
  have "speed (calculate_speed 1500 (init_state\<lparr>pulse_count := 3\<rparr>)) = Fin 40"
    by (simp add: calculate_speed_def time_per_rev_def init_state_def PULSES_PER_REV_def fp_eval)
  then show ?thesis
    using calculate_speed_rounded_quotient [of "init_state\<lparr>pulse_count := 3\<rparr>" 1500]
    by (simp add: init_state_def)
qed

theorem calculate_speed_not_exact:
  "speed (calculate_speed 7000 (init_state\<lparr>pulse_count := 3\<rparr>)) = Fin (4493897 / 524288) \<and>
   speed (calculate_speed 7000 (init_state\<lparr>pulse_count := 3\<rparr>)) \<noteq> Fin (60 / (7000 / 1000))"
proof -
  have "speed (calculate_speed 7000 (init_state\<lparr>pulse_count := 3\<rparr>)) = Fin (4493897 / 524288)"
    by (simp add: calculate_speed_def time_per_rev_def init_state_def PULSES_PER_REV_def fp_eval)
  then show ?thesis by simp
qed

lemma target_defined:
  assumes "1 / 2 ^ 18 \<le> v" "v \<le> 2 ^ 16"
  shows "\<exists>p. fp_mul binary32 (fp_div binary32 (Fin v) (Fin 20)) (Fin 255) = Fin p \<and>
    0 < p \<and> p \<le> 2 ^ 20"
proof -
  define q where "q = round_fin binary32 (v / 20)"
  define p where "p = round_fin binary32 (q * 255)"
  have "2 powi (- 23) \<le> v / 20" "v / 20 \<le> 2 powi 12"
    using assms by (simp_all add: power_int_minus_divide)
  then have 1: "fround binary32 (v / 20) = Fin q \<and> 2 powi (- 23) \<le> q \<and> q \<le> 2 powi 12 \<and>
      \<bar>q - v / 20\<bar> \<le> 2 powi (- int (precision binary32)) * (v / 20)"
    unfolding q_def by (intro fround_normal) simp_all
  then have "2 powi (- 23) \<le> q * 255" "q * 255 \<le> 2 powi 20"
    by (simp_all add: power_int_minus_divide)
  then have 2: "fround binary32 (q * 255) = Fin p \<and> 2 powi (- 23) \<le> p \<and> p \<le> 2 powi 20 \<and>
      \<bar>p - q * 255\<bar> \<le> 2 powi (- int (precision binary32)) * (q * 255)"
    unfolding p_def by (intro fround_normal) simp_all
  have "0 < p" using 2 zero_less_power_int [of "2::real" "- 23"] by linarith
  moreover have "p \<le> 2 ^ 20" using 2 by simp
  moreover have "fp_mul binary32 (fp_div binary32 (Fin v) (Fin 20)) (Fin 255) = Fin p"
    using 1 2 by simp
  ultimately show ?thesis by blast
qed

text \<open>
  C6, as amended. \<open>calculate_speed\<close> divides without a test of the elapsed time. When
  the clock differs from the time of the last sample (an elapsed time of 1 ms or more),
  the speed it stores is finite, positive and at most 65536, and the conversion of the
  target computed from it to \<open>int\<close> is defined: the target does not depend on what an
  undefined conversion delivers.
\<close>

theorem nonzero_elapsed_time_finite_speed:
  "3 \<le> pulse_count s \<Longrightarrow> now \<noteq> last_pulse_time s \<Longrightarrow>
   \<exists>v. speed (calculate_speed now s) = Fin v \<and> 0 < v \<and> v \<le> 65536 \<and>
     (\<forall>u. target_duty_cycle u (Fin v) = target_duty_cycle 0 (Fin v))"
proof -
  assume "3 \<le> pulse_count s" "now \<noteq> last_pulse_time s"
  from calculate_speed_sample [OF this] obtain v where
    c: "calculate_speed now s = s\<lparr>speed := Fin v, last_pulse_time := now, pulse_count := 0\<rparr>"
    and v: "1 / 2 ^ 18 \<le> v" "v \<le> 2 ^ 16"
    by blast
  from target_defined [OF v] obtain p where
    p: "fp_mul binary32 (fp_div binary32 (Fin v) (Fin 20)) (Fin 255) = Fin p" "0 < p" "p \<le> 2 ^ 20"
    by blast
  have "target_duty_cycle u (Fin v) = max 0 (min 255 \<lfloor>p\<rfloor>)" for u
    using p by (intro target_duty_cycle_finite) simp_all
  then have "\<forall>u. target_duty_cycle u (Fin v) = target_duty_cycle 0 (Fin v)" by simp
  moreover have "0 < v" using v(1) by (simp add: field_simps) 
  moreover have "speed (calculate_speed now s) = Fin v" by (simp add: c)
  ultimately show ?thesis using v(2) by auto
qed

theorem nonzero_elapsed_time_finite_speed_witness:
  "3 \<le> pulse_count (init_state\<lparr>pulse_count := 5\<rparr>) \<and>
   3000 \<noteq> last_pulse_time (init_state\<lparr>pulse_count := 5\<rparr>) \<and>
   speed (calculate_speed 3000 (init_state\<lparr>pulse_count := 5\<rparr>)) = Fin 20 \<and>
   target_duty_cycle 12345 (Fin 20) = 255 \<and> target_duty_cycle 0 (Fin 20) = 255"
proof -
  have "speed (calculate_speed 3000 (init_state\<lparr>pulse_count := 5\<rparr>)) = Fin 20"
    by (simp add: calculate_speed_def time_per_rev_def init_state_def PULSES_PER_REV_def fp_eval)
  moreover have "target_duty_cycle u (Fin 20) = 255" for u
    by (simp add: target_duty_cycle_clamp) (simp add: fp_eval)
  ultimately show ?thesis
    using nonzero_elapsed_time_finite_speed [of "init_state\<lparr>pulse_count := 5\<rparr>" 3000]
    by (simp add: init_state_def)
qed

text \<open>
  The claim C6 itself fails. Two iterations from power-on, each after three pulses, the
  button held pressed, the potentiometer at 0, and the clock reading 3000 both times (as
  it does again \<open>2 ^ 32\<close> ms later): the second division is by zero, the speed stored is
  \<open>+\<infinity>\<close>, the cruise control is on, so this speed is what \<open>set_motor_speed\<close> gets, and the
  duty cycle that results is whatever the undefined conversion makes of it.
\<close>

theorem zero_elapsed_time_reaches_motor:
  "speed (main_run
      [\<lparr>pulses = 3, clock_ms = 3000, button = False, adc = 0, undef_int = 0\<rparr>,
       \<lparr>pulses = 3, clock_ms = 3000, button = False, adc = 0, undef_int = 2147483647\<rparr>]) = PInf \<and>
   cruise_control_active (main_run
      [\<lparr>pulses = 3, clock_ms = 3000, button = False, adc = 0, undef_int = 0\<rparr>,
       \<lparr>pulses = 3, clock_ms = 3000, button = False, adc = 0, undef_int = 2147483647\<rparr>]) \<and>
   motor_source (read_potentiometer 0) (main_run
      [\<lparr>pulses = 3, clock_ms = 3000, button = False, adc = 0, undef_int = 0\<rparr>,
       \<lparr>pulses = 3, clock_ms = 3000, button = False, adc = 0, undef_int = 2147483647\<rparr>]) = PInf \<and>
   current_duty_cycle (main_run
      [\<lparr>pulses = 3, clock_ms = 3000, button = False, adc = 0, undef_int = 0\<rparr>,
       \<lparr>pulses = 3, clock_ms = 3000, button = False, adc = 0, undef_int = 2147483647\<rparr>]) = 40 \<and>
   current_duty_cycle (main_run
      [\<lparr>pulses = 3, clock_ms = 3000, button = False, adc = 0, undef_int = 0\<rparr>,
       \<lparr>pulses = 3, clock_ms = 3000, button = False, adc = 0, undef_int = - 2147483648\<rparr>]) = 0"
proof -
  have s1: "main_run [\<lparr>pulses = 3, clock_ms = 3000, button = False, adc = 0, undef_int = 0\<rparr>] =
      \<lparr>pulse_count = 0, last_pulse_time = 3000, speed = Fin 20, cruise_control_active = True,
       current_duty_cycle = 20, last_pot_value = Fin 0, last_button_state = False\<rparr>"
  proof -
    have "(sensor_callback ^^ 3) init_state = init_state\<lparr>pulse_count := 3\<rparr>"
      by (simp add: numeral_3_eq_3 sensor_callback_def init_state_def)
    moreover have "calculate_speed 3000 (init_state\<lparr>pulse_count := 3\<rparr>) =
        init_state\<lparr>speed := Fin 20, last_pulse_time := 3000\<rparr>"
      by (simp add: calculate_speed_def time_per_rev_def init_state_def PULSES_PER_REV_def fp_eval)
    moreover have "\<not> pot_changed (Fin 0) (Fin 0)"
      by (simp add: pot_changed_def POT_CHANGE_THRESHOLD_def double_literals)
    moreover have "target_duty_cycle 0 (Fin 20) = 255"
      by (simp add: target_duty_cycle_clamp) (simp add: fp_eval)
    ultimately show ?thesis
      by (simp add: main_run_def main_loop_body_def Let_def read_potentiometer_0 main_button_def
          main_pot_change_def motor_source_def set_motor_speed_def ramp_duty_cycle_def
          duty_cycle_step_def init_state_def)
  qed
  have s2: "main_loop_body \<lparr>pulses = 3, clock_ms = 3000, button = False, adc = 0, undef_int = u\<rparr>
      \<lparr>pulse_count = 0, last_pulse_time = 3000, speed = Fin 20, cruise_control_active = True,
       current_duty_cycle = 20, last_pot_value = Fin 0, last_button_state = False\<rparr> =
      \<lparr>pulse_count = 0, last_pulse_time = 3000, speed = PInf, cruise_control_active = True,
       current_duty_cycle = ramp_duty_cycle (max 0 (min 255 u)) 20, last_pot_value = Fin 0,
       last_button_state = False\<rparr>" for u
  proof -
    have "\<not> pot_changed (Fin 0) (Fin 0)"
      by (simp add: pot_changed_def POT_CHANGE_THRESHOLD_def double_literals)
    moreover have "target_duty_cycle u PInf = max 0 (min 255 u)"
      by (simp add: target_duty_cycle_clamp)
    ultimately show ?thesis
      by (simp add: main_loop_body_def Let_def read_potentiometer_0 main_button_def
          main_pot_change_def motor_source_def set_motor_speed_def numeral_3_eq_3
          sensor_callback_def calculate_speed_def time_per_rev_def PULSES_PER_REV_def
          double_literals fp_of_int_def)
  qed
  have run: "main_run [i, j] = main_loop_body j (main_run [i])" for i j
    using main_run_snoc [of "[i]" j] by simp
  show ?thesis
    unfolding run s1 s2
    by (simp add: motor_source_def ramp_duty_cycle_def duty_cycle_step_def)
qed


subsection \<open>The sensor interrupt during \<open>calculate_speed\<close>\<close>

lemma calculate_speed_split:
  "calculate_speed now s = (if calculate_speed_test s then calculate_speed_body now s else s)"
  by (simp add: calculate_speed_def calculate_speed_test_def calculate_speed_body_def)

lemma sensor_callbacks_pulse_count:
  "pulse_count ((sensor_callback ^^ k) s) = pulse_count s + of_nat k"
  by (induction k) (simp_all add: sensor_callback_def)

lemma sensor_callbacks_other [simp]:
  "last_pulse_time ((sensor_callback ^^ k) s) = last_pulse_time s"
  "speed ((sensor_callback ^^ k) s) = speed s"
  by (induction k) (simp_all add: sensor_callback_def)

lemma calculate_speed_body_callbacks:
  "calculate_speed_body now ((sensor_callback ^^ k) s) = calculate_speed_body now s"
proof (induction k)
  case 0
  show ?case by simp
next
  case (Suc k)
  have "calculate_speed_body now (sensor_callback t) = calculate_speed_body now t" for t
    by (simp add: calculate_speed_body_def sensor_callback_def)
  with Suc show ?case by simp
qed

text \<open>
  C9, as amended. The code has no indivisible read and reset of the counter: it tests
  it (line 32) and later stores 0 (line 37). An increment is not lost when the callback
  runs before the test (the test sees the counter with all \<open>k\<close> increments) or after
  the call (the counter holds them), nor when it runs during a call whose test fails;
  the counter is a \<open>uint32_t\<close> and counts modulo \<open>2 ^ 32\<close>.
  When it runs between a test that holds and the reset, the call ends as if the
  callback had not run, with the counter at 0.
\<close>

theorem pulse_increments_outside_reset_window:
  "calculate_speed_interrupted 0 now s = calculate_speed now s \<and>
   calculate_speed_test ((sensor_callback ^^ k) s) = (3 \<le> pulse_count s + of_nat k) \<and>
   pulse_count (calculate_speed now ((sensor_callback ^^ k) s)) =
     (if 3 \<le> pulse_count s + of_nat k then 0 else pulse_count s + of_nat k) \<and>
   pulse_count ((sensor_callback ^^ k) (calculate_speed now s)) =
     pulse_count (calculate_speed now s) + of_nat k \<and>
   calculate_speed_interrupted k now s =
     (if calculate_speed_test s then calculate_speed now s else (sensor_callback ^^ k) s) \<and>
   pulse_count (calculate_speed_interrupted k now s) =
     (if calculate_speed_test s then 0 else pulse_count s + of_nat k)"
  by (simp add: calculate_speed_interrupted_def calculate_speed_split calculate_speed_body_callbacks
      sensor_callbacks_pulse_count)
    (simp add: calculate_speed_test_def calculate_speed_body_def PULSES_PER_REV_def
      sensor_callbacks_pulse_count)

text \<open>
  The claim C9 itself fails: with three pulses counted, a callback between the test and
  the reset leaves the very state of the call without it, the counter at 0; had the
  read and reset been indivisible, the increment would come after the call and leave 1.
\<close>

theorem pulse_lost_between_test_and_reset:
  "calculate_speed_test (init_state\<lparr>pulse_count := 3\<rparr>) \<and>
   calculate_speed_interrupted 1 1500 (init_state\<lparr>pulse_count := 3\<rparr>)
     = calculate_speed 1500 (init_state\<lparr>pulse_count := 3\<rparr>) \<and>
   pulse_count (calculate_speed_interrupted 1 1500 (init_state\<lparr>pulse_count := 3\<rparr>)) = 0 \<and>
   pulse_count (sensor_callback (calculate_speed 1500 (init_state\<lparr>pulse_count := 3\<rparr>))) = 1"
  by (simp add: calculate_speed_interrupted_def calculate_speed_split)
    (simp add: calculate_speed_test_def calculate_speed_body_def PULSES_PER_REV_def
      sensor_callback_def init_state_def)


section \<open>The potentiometer\<close>

lemma uint16_exact: "fp_of_int binary64 (uint (raw :: 16 word)) = Fin (real (unat raw))"
proof -
  have "uint raw < 2 ^ 16" using uint_bounded [of raw] by simp
  then have "\<bar>uint raw\<bar> < 2 ^ 53" by simp
  then show ?thesis by (simp add: fp_of_int_exact)
qed

lemma read_potentiometer_low:
  fixes raw :: "16 word"
  assumes "unat raw \<le> 40"
  shows "read_potentiometer raw = Fin 0"
proof -
  define n where "n = (unsigned raw :: real)"
  define d1 where "d1 = round_fin binary64 (n / 4095)"
  define d2 where "d2 = round_fin binary64 (d1 * 20)"
  define v where "v = round_fin binary32 d2"
  have "real (unat raw) \<le> real 40" using assms by (simp only: of_nat_le_iff)
  then have "n \<le> 40" by (simp add: n_def)
  moreover have "0 \<le> real (unat raw)" by (rule of_nat_0_le_iff)
  then have "0 \<le> n" by (simp add: n_def)
  ultimately have n: "0 \<le> n" "n \<le> 40" by simp_all
  have z64: "round_fin binary64 0 = 0" and z32: "round_fin binary32 0 = 0" by simp_all
  have b1: "round_fin binary64 (321 / 32768) = 321 / 32768"
    using round_fin_dyadic [of 321 binary64 15] by simp
  have b2: "round_fin binary64 (1605 / 8192) = 1605 / 8192"
    using round_fin_dyadic [of 1605 binary64 13] by simp
  have b3: "round_fin binary32 (1605 / 8192) = 1605 / 8192"
    using round_fin_dyadic [of 1605 binary32 13] by simp
  have 1: "fround binary64 (n / 4095) = Fin d1 \<and> 0 \<le> d1 \<and> d1 \<le> 321 / 32768"
    unfolding d1_def using n by (intro fround_between z64 b1) simp_all
  then have "0 \<le> d1 * 20" "d1 * 20 \<le> 1605 / 8192" by simp_all
  then have 2: "fround binary64 (d1 * 20) = Fin d2 \<and> 0 \<le> d2 \<and> d2 \<le> 1605 / 8192"
    unfolding d2_def by (intro fround_between z64 b2) simp_all
  then have 3: "fround binary32 d2 = Fin v \<and> 0 \<le> v \<and> v \<le> 1605 / 8192"
    unfolding v_def by (intro fround_between z32 b3) simp_all
  show ?thesis
    using 1 2 3
    by (simp add: read_potentiometer_def uint16_exact double_literals int_constants
        POT_DEAD_ZONE_def n_def [symmetric])
qed

lemma read_potentiometer_high:
  fixes raw :: "16 word"
  assumes "41 \<le> unat raw" "unat raw \<le> 4095"
  shows "\<exists>v. read_potentiometer raw = Fin v \<and> 1 / 5 \<le> v \<and> v \<le> 20 \<and>
    \<bar>v - real (unat raw) / 4095 * 20\<bar> \<le> real (unat raw) / 4095 * 20 / 2 ^ 23"
proof -
  define n where "n = (unsigned raw :: real)"
  define d1 where "d1 = round_fin binary64 (n / 4095)"
  define d2 where "d2 = round_fin binary64 (d1 * 20)"
  define v where "v = round_fin binary32 d2"
  have "real 41 \<le> real (unat raw)" "real (unat raw) \<le> real 4095"
    using assms by (simp_all only: of_nat_le_iff)
  then have n: "41 \<le> n" "n \<le> 4095" by (simp_all add: n_def)
  have a1: "round_fin binary64 (41 / 4096) = 41 / 4096"
    using round_fin_dyadic [of 41 binary64 12] by simp
  have a2: "round_fin binary64 (205 / 1024) = 205 / 1024"
    using round_fin_dyadic [of 205 binary64 10] by simp
  have a3: "round_fin binary32 (205 / 1024) = 205 / 1024"
    using round_fin_dyadic [of 205 binary32 10] by simp
  have o64: "round_fin binary64 1 = 1" "round_fin binary64 20 = 20"
    using round_fin_int [of 1 binary64] round_fin_int [of 20 binary64] by simp_all
  have o32: "round_fin binary32 20 = 20"
    using round_fin_int [of 20 binary32] by simp
  have 1: "fround binary64 (n / 4095) = Fin d1 \<and> 41 / 4096 \<le> d1 \<and> d1 \<le> 1"
    unfolding d1_def using n by (intro fround_between a1 o64) simp_all
  have e1: "\<bar>d1 - n / 4095\<bar> \<le> 1 / 2 ^ 53 * (n / 4095)"
    using fround_normal [of binary64 "- 7" "n / 4095" 0] n
    by (simp add: d1_def power_int_minus_divide)
  from 1 have "205 / 1024 \<le> d1 * 20" "d1 * 20 \<le> 20" by simp_all
  then have 2: "fround binary64 (d1 * 20) = Fin d2 \<and> 205 / 1024 \<le> d2 \<and> d2 \<le> 20"
    unfolding d2_def by (intro fround_between a2 o64) simp_all
  have e2: "\<bar>d2 - d1 * 20\<bar> \<le> 1 / 2 ^ 53 * (d1 * 20)"
    using fround_normal [of binary64 "- 3" "d1 * 20" 5] 1
    by (simp add: d2_def power_int_minus_divide)
  from 2 have 3: "fround binary32 d2 = Fin v \<and> 205 / 1024 \<le> v \<and> v \<le> 20"
    unfolding v_def by (intro fround_between a3 o32) simp_all
  have e3: "\<bar>v - d2\<bar> \<le> 1 / 2 ^ 24 * d2"
    using fround_normal [of binary32 "- 3" d2 5] 2
    by (simp add: v_def power_int_minus_divide)
  have r: "read_potentiometer raw = Fin v"
    using 1 2 3
    by (simp add: read_potentiometer_def uint16_exact double_literals int_constants
        POT_DEAD_ZONE_def n_def [symmetric])
  define x where "x = n / 4095 * 20"
  have x: "0 \<le> x" using n by (simp add: x_def)
  from e1 have "\<bar>d1 * 20 - x\<bar> \<le> 1 / 2 ^ 53 * x"
    by (simp add: x_def abs_if split: if_splits)
  from rel_err_trans [OF this e2]
  have "\<bar>d2 - x\<bar> \<le> (1 / 2 ^ 53 + 1 / 2 ^ 53 + 1 / 2 ^ 53 * (1 / 2 ^ 53)) * x" by simp
  from rel_err_trans [OF this e3]
  have "\<bar>v - x\<bar> \<le> (1 / 2 ^ 53 + 1 / 2 ^ 53 + 1 / 2 ^ 53 * (1 / 2 ^ 53) + 1 / 2 ^ 24
      + (1 / 2 ^ 53 + 1 / 2 ^ 53 + 1 / 2 ^ 53 * (1 / 2 ^ 53)) * (1 / 2 ^ 24)) * x" by simp
  also have "\<dots> \<le> 1 / 2 ^ 23 * x"
    using x by (intro mult_right_mono) simp_all
  finally have "\<bar>v - x\<bar> \<le> x / 2 ^ 23" by simp
  with r 3 show ?thesis by (auto simp add: x_def n_def)
qed


text \<open>
  C7. If the scaled value \<open>raw / 4095 * 20\<close> of a sample is below \<open>POT_DEAD_ZONE\<close> (0.2)
  in magnitude, \<open>read_potentiometer\<close> returns exactly 0. For every other sample of the
  device range 0..4095 it returns the scaled value as the floating-point computation
  delivers it: a finite number from 0.2 to 20 that differs from \<open>raw / 4095 * 20\<close> by at
  most its \<open>2 ^ 23\<close>th part.
\<close>

theorem read_potentiometer_dead_zone_and_scaling:
  fixes raw :: "16 word"
  shows
  "(\<bar>real (unat raw) / 4095 * 20\<bar> < 1 / 5 \<longrightarrow> read_potentiometer raw = Fin 0) \<and>
   (\<not> \<bar>real (unat raw) / 4095 * 20\<bar> < 1 / 5 \<and> unat raw \<le> 4095 \<longrightarrow>
      (\<exists>v. read_potentiometer raw = Fin v \<and> 1 / 5 \<le> v \<and> v \<le> 20 \<and>
         \<bar>v - real (unat raw) / 4095 * 20\<bar> \<le> real (unat raw) / 4095 * 20 / 2 ^ 23))"
proof -
  have "\<bar>real n / 4095 * 20\<bar> < 1 / 5 \<longleftrightarrow> n \<le> 40" for n :: nat
  proof -
    have "\<bar>real n / 4095 * 20\<bar> = real n / 4095 * 20" by simp
    moreover have "real n / 4095 * 20 < 1 / 5 \<longleftrightarrow> real (n * 100) < real 4095" by simp
    moreover have "real (n * 100) < real 4095 \<longleftrightarrow> n * 100 < 4095" by (simp only: of_nat_less_iff)
    moreover have "n * 100 < 4095 \<longleftrightarrow> n \<le> 40" by arith
    ultimately show ?thesis by simp
  qed
  then have dz: "\<bar>real (unat raw) / 4095 * 20\<bar> < 1 / 5 \<longleftrightarrow> unat raw \<le> 40" .
  show ?thesis
  proof (intro conjI impI)
    assume "\<bar>real (unat raw) / 4095 * 20\<bar> < 1 / 5"
    with dz have "unat raw \<le> 40" by simp
    then show "read_potentiometer raw = Fin 0" by (rule read_potentiometer_low)
  next
    assume "\<not> \<bar>real (unat raw) / 4095 * 20\<bar> < 1 / 5 \<and> unat raw \<le> 4095"
    with dz have "41 \<le> unat raw" "unat raw \<le> 4095" by simp_all
    then show "\<exists>v. read_potentiometer raw = Fin v \<and> 1 / 5 \<le> v \<and> v \<le> 20 \<and>
        \<bar>v - real (unat raw) / 4095 * 20\<bar> \<le> real (unat raw) / 4095 * 20 / 2 ^ 23"
      by (rule read_potentiometer_high)
  qed
qed

theorem read_potentiometer_dead_zone_and_scaling_witness:
  "\<bar>real (unat (40 :: 16 word)) / 4095 * 20\<bar> < 1 / 5 \<and>
   read_potentiometer 40 = Fin 0 \<and>
   \<not> \<bar>real (unat (41 :: 16 word)) / 4095 * 20\<bar> < 1 / 5 \<and>
   unat (41 :: 16 word) \<le> 4095 \<and>
   read_potentiometer 41 = Fin (13438161 / 67108864) \<and>
   read_potentiometer 4095 = Fin 20"
proof -
  have "read_potentiometer 41 = Fin (13438161 / 67108864)"
    by (simp add: read_potentiometer_def POT_DEAD_ZONE_def TARGET_SPEED_def fp_eval)
  then show ?thesis
    using read_potentiometer_dead_zone_and_scaling [of 40]
      read_potentiometer_dead_zone_and_scaling [of 41]
    by (simp add: read_potentiometer_4095)
qed


subsection \<open>The change test and the exact difference\<close>

text \<open>
  The test of line 127 subtracts in \<open>float\<close>. When it fires, the exact difference
  exceeds 0.5; and two values that \<open>read_potentiometer\<close> returns for samples of the
  device range 0..4095 never differ by more than 0.5 and less than \<open>0.5 + 2 ^ - 9\<close>, so
  for them the test fires exactly when the exact difference exceeds 0.5.
\<close>

lemma half32: "round_fin binary32 (1 / 2) = 1 / 2" "round_fin binary32 (- (1 / 2)) = - (1 / 2)"
  using round_fin_dyadic [of 1 binary32 1] round_fin_dyadic [of "- 1" binary32 1] by simp_all

lemma pot_changed_sound: "pot_changed (Fin a) (Fin b) \<Longrightarrow> 1 / 2 < \<bar>a - b\<bar>"
proof (rule ccontr)
  assume pc: "pot_changed (Fin a) (Fin b)" and "\<not> 1 / 2 < \<bar>a - b\<bar>"
  then have "- (1 / 2) \<le> a - b" "a - b \<le> 1 / 2" by linarith+
  then have "fround binary32 (a - b) = Fin (round_fin binary32 (a - b)) \<and>
      - (1 / 2) \<le> round_fin binary32 (a - b) \<and> round_fin binary32 (a - b) \<le> 1 / 2"
    by (intro fround_between half32) simp_all
  then have "fround binary32 (a - b) = Fin (round_fin binary32 (a - b))"
    and "\<bar>round_fin binary32 (a - b)\<bar> \<le> 1 / 2"
    by linarith+
  with pc show False
    by (simp add: pot_changed_def POT_CHANGE_THRESHOLD_def double_literals)
qed




lemma pot_value:
  fixes r :: "16 word"
  assumes "unat r \<le> 4095"
  shows "\<exists>v. read_potentiometer r = Fin v \<and>
    (unat r \<le> 40 \<and> v = 0 \<or>
     41 \<le> unat r \<and> \<bar>v - real (unat r) / 4095 * 20\<bar> \<le> real (unat r) / 4095 * 20 / 2 ^ 23)"
proof (cases "unat r \<le> 40")
  case True
  then show ?thesis by (simp add: read_potentiometer_low)
next
  case False
  then have "41 \<le> unat r" by simp
  from read_potentiometer_high [OF this assms] False show ?thesis by auto
qed



lemma main_loop_body_last_pot [simp]:
  "last_pot_value (main_loop_body i s) = read_potentiometer (adc i)"
  by (simp add: main_loop_body_def Let_def)



section \<open>The cruise control\<close>

text \<open>
  C10. At power-on the stored button level is \<open>true\<close> (not pressed) and the cruise
  control is off. If the button reads pressed (\<open>false\<close>) in the first iteration, the
  button code of that iteration switches the cruise control on, whatever the sensor and
  the clock did; at the end of that iteration it is still on unless the first
  potentiometer value differs from the initial 0 by more than the threshold.
\<close>

theorem first_iteration_button_held:
  "last_button_state init_state \<and>
   \<not> cruise_control_active init_state \<and>
   cruise_control_active
     (main_button False (calculate_speed now ((sensor_callback ^^ n) init_state))) \<and>
   cruise_control_active (main_loop_body (i\<lparr>button := False\<rparr>) init_state) =
     (\<not> pot_changed (read_potentiometer (adc i)) (Fin 0))"
  by (simp add: main_loop_body_cruise main_button_cruise) (simp add: init_state_def)





text \<open>Scenario C of the specification: the potentiometer value goes from 2.0 to 3.0.\<close>

lemma scenario_C:
  "\<not> cruise_control_active
      (main_pot_change (Fin 3) (s\<lparr>cruise_control_active := True, last_pot_value := Fin 2\<rparr>))"
proof -
  have "fround binary32 1 = Fin 1"
    by (simp add: fp_eval)
  then show ?thesis
    by (simp add: main_pot_change_cruise pot_changed_def POT_CHANGE_THRESHOLD_def double_literals)
qed

end
